theory Spec2Isabelle
  imports Main "HOL-Library.Word" "HOL-Library.Multiset"
begin

section \<open>The extraction orchestrator of \<open>src/extract-only.ts\<close>\<close>

text \<open>
  The program is one class, \<open>VPKExtractor\<close>, whose constructor merges a
  configuration and starts \<open>extractPNGs\<close>. That method checks two
  prerequisite files, loads the archive index through the \<open>vpk\<close> package,
  runs one external decompiler process per requested path (\<open>dumpFiles\<close>) and
  then renames the extracted files (\<open>renameFiles\<close>).

  Everything the code does besides computing strings is an effect on the
  outside world: logger calls, \<open>existsSync\<close>, the \<open>vpk\<close> loader,
  \<open>child_process.exec\<close>, \<open>readdir\<close> and \<open>rename\<close>. The model threads a
  state (the trace of effects so far, the file system, and the child
  processes that run) through the methods and takes the behaviour of the
  outside world as a record of functions, so that a theorem quantified over
  that record holds for every outcome of the file system and of the child
  processes: \<open>exec\<close> may throw, a child may fail, may never end, and the
  children end in any order, also while the program is at a later \<open>await\<close>.
\<close>

subsection \<open>Configuration and the two path tables\<close>

record Config =
  directory :: string
  stickers :: bool
  patches :: bool
  graffiti :: bool
  characters :: bool
  musicKits :: bool
  cases :: bool
  tools :: bool
  statusIcons :: bool
  weapons :: bool
  otherWeapons :: bool
  setIcons :: bool
  seasonIcons :: bool
  premierSeasons :: bool
  tournaments :: bool
  logLevel :: string
  source2Viewer :: string

definition DEFAULT_CONFIG :: Config where
  "DEFAULT_CONFIG =
     \<lparr> directory = ''data'', stickers = True, patches = True, graffiti = True,
       characters = True, musicKits = True, cases = True, tools = True,
       statusIcons = True, weapons = True, otherWeapons = True, setIcons = True,
       seasonIcons = True, premierSeasons = True, tournaments = True,
       logLevel = ''info'', source2Viewer = ''Source2Viewer-CLI'' \<rparr>"

text \<open>The configuration the last statement of the file constructs the extractor with.\<close>

definition MAIN_CONFIG :: Config where
  "MAIN_CONFIG =
     DEFAULT_CONFIG \<lparr> stickers := False, patches := False, graffiti := False,
       characters := False, musicKits := False, cases := False, tools := False,
       statusIcons := True, weapons := False, otherWeapons := False,
       setIcons := False, seasonIcons := False, premierSeasons := True,
       tournaments := False \<rparr>"

definition ECON_PATH :: string where
  "ECON_PATH = ''panorama/images/econ''"

text \<open>
  \<open>neededDirectories\<close> and \<open>neededFiles\<close> are object literals; \<open>Object.keys\<close>
  lists their keys in insertion order, so each is an association list in the
  order of the source.
\<close>

definition neededDirectories :: "(string \<times> string) list" where
  "neededDirectories =
     [ (''stickers'', ECON_PATH @ ''/stickers''),
       (''patches'', ECON_PATH @ ''/patches''),
       (''graffiti'', ECON_PATH @ ''/stickers/default''),
       (''characters'', ECON_PATH @ ''/characters''),
       (''musicKits'', ECON_PATH @ ''/music_kits''),
       (''cases'', ECON_PATH @ ''/weapon_cases''),
       (''tools'', ECON_PATH @ ''/tools''),
       (''statusIcons'', ECON_PATH @ ''/status_icons''),
       (''weapons'', ECON_PATH @ ''/default_generated''),
       (''otherWeapons'', ECON_PATH @ ''/weapons''),
       (''seasonIcons'', ECON_PATH @ ''/season_icons''),
       (''premierSeasons'', ECON_PATH @ ''/premier_seasons''),
       (''tournaments'', ECON_PATH @ ''/tournaments''),
       (''setIcons'', ECON_PATH @ ''/set_icons'') ]"

definition neededFiles :: "(string \<times> string) list" where
  "neededFiles =
     [ (''itemsGame'', ''scripts/items/items_game.txt''),
       (''csgoEnglish'', ''resource/csgo_english.txt'') ]"

text \<open>
  \<open>this.config[f] === true\<close>: the property of the configuration named by
  the key. The two string-valued properties and every other key are never
  \<open>=== true\<close>.
\<close>

definition configIsTrue :: "Config \<Rightarrow> string \<Rightarrow> bool" where
  "configIsTrue c f =
     (if f = ''stickers'' then stickers c
      else if f = ''patches'' then patches c
      else if f = ''graffiti'' then graffiti c
      else if f = ''characters'' then characters c
      else if f = ''musicKits'' then musicKits c
      else if f = ''cases'' then cases c
      else if f = ''tools'' then tools c
      else if f = ''statusIcons'' then statusIcons c
      else if f = ''weapons'' then weapons c
      else if f = ''otherWeapons'' then otherWeapons c
      else if f = ''setIcons'' then setIcons c
      else if f = ''seasonIcons'' then seasonIcons c
      else if f = ''premierSeasons'' then premierSeasons c
      else if f = ''tournaments'' then tournaments c
      else False)"

text \<open>The first statement of \<open>dumpFiles\<close>: keys, \<open>filter\<close>, \<open>map\<close>, \<open>concat\<close>.\<close>

definition pathsToDump :: "Config \<Rightarrow> string list" where
  "pathsToDump c =
     map snd (filter (\<lambda>(f, _). configIsTrue c f) neededDirectories)
     @ map snd neededFiles"

subsection \<open>Effects: the trace, the state and the outside world\<close>

datatype error = JsError string

datatype level = LvError | LvWarn | LvInfo | LvDebug

text \<open>
  A path handed to \<open>rename\<close> is \<open>join(parent, name)\<close> for a directory
  and an entry name without separator; it is kept as that pair, and
  \<open>dirname\<close> of it is the directory again.
\<close>

datatype fpath = FPath (dir: string) (leaf: string)

definition join :: "string \<Rightarrow> string \<Rightarrow> fpath" where
  "join d n = FPath d n"

definition dirname :: "fpath \<Rightarrow> string" where
  "dirname p = dir p"

text \<open>
  One event per call that leaves the program: a logger call (level, message,
  the error passed as second argument if any), the \<open>vpk\<close> load, a call of
  \<open>exec\<close> that started a child process, a call of \<open>exec\<close> that threw, the
  call of the completion callback of a child, \<open>readdir\<close>, and a call of
  \<open>rename\<close>.
\<close>

datatype event =
    Log level string "string option"
  | VpkLoad string
  | ExecStart string
  | ExecThrow string
  | ExecExit string
  | Readdir string
  | Rename fpath fpath

text \<open>
  A child process is the path it extracts and its command line. The state
  holds the trace, the file system, and the children that \<open>exec\<close> has
  started and whose callback has not run yet.
\<close>

type_synonym child = "string \<times> string"

record 'fs state =
  trace :: "event list"
  files :: "'fs"
  running :: "child list"

text \<open>A \<open>Dirent\<close> as \<open>readdir\<close> with \<open>withFileTypes\<close> returns it.\<close>

record Dirent =
  name :: string
  parentPath :: string
  isFile :: bool

text \<open>
  The outside world. \<open>vpkLoad\<close> is the \<open>vpk\<close> package's constructor and
  \<open>load\<close>, returning the number of files or throwing.

  For a command line \<open>cmd\<close> handed to \<open>exec\<close>: \<open>execThrows cmd\<close> is the
  error \<open>exec\<close> itself throws, if it does (the spawn fails in a way Node
  reports by an exception); \<open>execHangs cmd\<close> says that the child never ends,
  so that its callback is never called; \<open>execError cmd\<close> is the message of
  the error the callback receives (\<open>None\<close>: the child ended with status 0);
  \<open>execEffect cmd\<close> is what the child has done to the file system by the
  time it ends.

  The scheduler: \<open>exitOrder\<close> chooses, while the program waits for all
  children, which of them ends next; \<open>whileAwaiting n\<close> chooses the children
  that end while the program waits at a later \<open>await\<close>, reached with
  \<open>n\<close> events in the trace.
\<close>

record 'fs env =
  platform :: string
  existsSync :: "string \<Rightarrow> bool"
  vpkLoad :: "string \<Rightarrow> error + nat"
  execThrows :: "string \<Rightarrow> error option"
  execHangs :: "string \<Rightarrow> bool"
  execError :: "string \<Rightarrow> string option"
  execEffect :: "string \<Rightarrow> 'fs \<Rightarrow> 'fs"
  exitOrder :: "nat list"
  whileAwaiting :: "nat \<Rightarrow> nat list"
  readdir :: "string \<Rightarrow> 'fs \<Rightarrow> error + Dirent list"
  rename :: "fpath \<Rightarrow> fpath \<Rightarrow> 'fs \<Rightarrow> error + 'fs"

text \<open>
  How a call ends: a synchronous call returns or throws, the promise of an
  \<open>async\<close> method fulfils or rejects, or it stays pending for ever because
  what it waits for never happens. The effects made before stay.
\<close>

datatype outcome = Fulfilled | Rejected error | Pending

definition emit :: "event \<Rightarrow> 'fs state \<Rightarrow> 'fs state" where
  "emit e st = st \<lparr> trace := trace st @ [e] \<rparr>"

definition log :: "level \<Rightarrow> string \<Rightarrow> string option \<Rightarrow> 'fs state \<Rightarrow> 'fs state" where
  "log l msg meta st = emit (Log l msg meta) st"

text \<open>Template literals print numbers in decimal.\<close>

fun show_nat :: "nat \<Rightarrow> string" where
  "show_nat n =
     (if n < 10 then [''0123456789'' ! n]
      else show_nat (n div 10) @ [''0123456789'' ! (n mod 10)])"

declare show_nat.simps [simp del]

definition errorText :: "error \<Rightarrow> string" where
  "errorText e = (case e of JsError m \<Rightarrow> m)"

subsection \<open>Children that end\<close>

text \<open>
  The callback of \<open>exec\<close>, called when the child has ended: warn if there
  is an error, and \<open>resolve()\<close> in both cases, after which the child is no
  longer waited for.
\<close>

definition execCallback :: "'fs env \<Rightarrow> child \<Rightarrow> 'fs state \<Rightarrow> 'fs state" where
  "execCallback w ch st =
     (let (path, cmd) = ch;
          st1 = emit (ExecExit cmd)
                  (st \<lparr> files := execEffect w cmd (files st),
                        running := remove1 ch (running st) \<rparr>)
      in case execError w cmd of
           Some m \<Rightarrow> log LvWarn (''Warning extracting '' @ path @ '':'') (Some m) st1
         | None \<Rightarrow> st1)"

text \<open>The running children that will end.\<close>

definition ending :: "'fs env \<Rightarrow> 'fs state \<Rightarrow> child list" where
  "ending w st = filter (\<lambda>ch. \<not> execHangs w (snd ch)) (running st)"

definition pickIndex :: "nat list \<Rightarrow> nat \<Rightarrow> nat" where
  "pickIndex order n = (case order of [] \<Rightarrow> 0 | k # _ \<Rightarrow> k mod n)"

text \<open>
  Waiting until no running child is left that will end: the children end one
  at a time, the scheduler choosing which, and each runs its callback.
\<close>

function endAll :: "'fs env \<Rightarrow> nat list \<Rightarrow> 'fs state \<Rightarrow> 'fs state" where
  "endAll w order st =
     (if ending w st = [] then st
      else endAll w (tl order)
             (execCallback w (ending w st ! pickIndex order (length (ending w st))) st))"
  by pat_completeness auto
termination
proof (relation "measure (\<lambda>(w, order, st). length (running st))")
  show "wf (measure (\<lambda>(w, order, st). length (running st)))"
    by simp
next
  fix w :: "'fs env" and order :: "nat list" and st :: "'fs state"
  assume ne: "ending w st \<noteq> []"
  let ?ch = "ending w st ! pickIndex order (length (ending w st))"
  have "pickIndex order (length (ending w st)) < length (ending w st)"
    using ne by (cases order) (simp_all add: pickIndex_def)
  then have "?ch \<in> set (ending w st)"
    by (rule nth_mem)
  then have mem: "?ch \<in> set (running st)"
    by (simp add: ending_def)
  have "running (execCallback w ?ch st) = remove1 ?ch (running st)"
    by (simp add: execCallback_def emit_def log_def Let_def split: prod.splits option.splits)
  moreover have "0 < length (running st)"
    using mem by (rule length_pos_if_in_set)
  ultimately have "length (running (execCallback w ?ch st)) < length (running st)"
    using mem by (simp add: length_remove1)
  then show "((w, tl order, execCallback w ?ch st), (w, order, st))
             \<in> measure (\<lambda>(w, order, st). length (running st))"
    by simp
qed

declare endAll.simps [simp del]

text \<open>
  A later \<open>await\<close>: while the program waits, the children the scheduler
  names end and run their callbacks.
\<close>

fun endSome :: "'fs env \<Rightarrow> nat list \<Rightarrow> 'fs state \<Rightarrow> 'fs state" where
  "endSome w [] st = st"
| "endSome w (k # ks) st =
     (if ending w st = [] then st
      else endSome w ks (execCallback w (ending w st ! (k mod length (ending w st))) st))"

definition awaitPoint :: "'fs env \<Rightarrow> 'fs state \<Rightarrow> 'fs state" where
  "awaitPoint w st = endSome w (whileAwaiting w (length (trace st))) st"

subsection \<open>\<open>loadVPK\<close>\<close>

definition vpkPathOf :: "Config \<Rightarrow> string" where
  "vpkPathOf c = directory c @ ''/game/csgo/pak01_dir.vpk''"

definition loadVPK :: "Config \<Rightarrow> 'fs env \<Rightarrow> 'fs state \<Rightarrow> 'fs state \<times> outcome" where
  "loadVPK c w st =
     (let st1 = emit (VpkLoad (vpkPathOf c)) st in
      case vpkLoad w (vpkPathOf c) of
        Inl e \<Rightarrow> (st1, Rejected e)
      | Inr n \<Rightarrow>
          (log LvInfo (''Loaded VPK with '' @ show_nat n @ '' files'') None st1, Fulfilled))"

subsection \<open>\<open>dumpFiles\<close>\<close>

definition dquote :: string where
  "dquote = [CHR 0x22]"

definition backslash :: string where
  "backslash = [CHR 0x5C]"

text \<open>The command line the executor of each promise builds for its path.\<close>

definition commandFor :: "Config \<Rightarrow> string \<Rightarrow> string \<Rightarrow> string" where
  "commandFor c plat path =
     (let executable =
            (if plat = ''win32''
             then dquote @ directory c @ backslash @ source2Viewer c @ ''.exe'' @ dquote
             else directory c @ ''/'' @ source2Viewer c);
          nullRedirect = (if plat = ''win32'' then ''> nul 2>&1'' else ''> /dev/null 2>&1'')
      in executable @ '' --input '' @ dquote @ directory c @ backslash @ ''game''
           @ backslash @ ''csgo'' @ backslash @ ''pak01_dir.vpk'' @ dquote
           @ '' --vpk_filepath '' @ dquote @ path @ dquote
           @ '' -o '' @ dquote @ directory c @ dquote @ '' -d '' @ nullRedirect)"

text \<open>
  The executor of one promise: a debug line, then \<open>exec\<close>. Either \<open>exec\<close>
  starts the child and returns, and the promise waits for the callback; or
  \<open>exec\<close> throws, the promise constructor catches the exception and the
  promise is rejected with it. The result is that rejection, if any.
\<close>

definition startOne ::
  "Config \<Rightarrow> 'fs env \<Rightarrow> 'fs state \<Rightarrow> string \<Rightarrow> 'fs state \<times> error option" where
  "startOne c w st path =
     (let st1 = log LvDebug (''Dumping '' @ path @ ''...'') None st;
          cmd = commandFor c (platform w) path
      in case execThrows w cmd of
           Some e \<Rightarrow> (emit (ExecThrow cmd) st1, Some e)
         | None \<Rightarrow>
             (emit (ExecStart cmd) (st1 \<lparr> running := running st1 @ [(path, cmd)] \<rparr>), None))"

text \<open>
  \<open>pathsToDump.map\<close> runs the executor of every promise at once, in order,
  whatever the earlier ones did.
\<close>

fun startAll ::
  "Config \<Rightarrow> 'fs env \<Rightarrow> string list \<Rightarrow> 'fs state \<Rightarrow> 'fs state \<times> error option list" where
  "startAll c w [] st = (st, [])"
| "startAll c w (path # rest) st =
     (let (st1, r) = startOne c w st path;
          (st2, rs) = startAll c w rest st1
      in (st2, r # rs))"

fun firstRejection :: "error option list \<Rightarrow> error option" where
  "firstRejection [] = None"
| "firstRejection (Some e # rs) = Some e"
| "firstRejection (None # rs) = firstRejection rs"

text \<open>
  \<open>await Promise.all(promises)\<close>. If a promise is rejected already, by a
  throwing \<open>exec\<close>, the awaited promise rejects with the first such
  rejection before any callback runs, and the children that were started
  stay running. Otherwise the program waits for every child: those that end
  run their callbacks, and the awaited promise fulfils when none is left; with
  a child that never ends it stays pending.
\<close>

definition promiseAll ::
  "'fs env \<Rightarrow> error option list \<Rightarrow> 'fs state \<Rightarrow> 'fs state \<times> outcome" where
  "promiseAll w results st =
     (case firstRejection results of
        Some e \<Rightarrow> (st, Rejected e)
      | None \<Rightarrow>
          (let st1 = endAll w (exitOrder w) st
           in (st1, if running st1 = [] then Fulfilled else Pending)))"

definition dumpFiles :: "Config \<Rightarrow> 'fs env \<Rightarrow> 'fs state \<Rightarrow> 'fs state \<times> outcome" where
  "dumpFiles c w st =
     (let paths = pathsToDump c;
          st1 = log LvInfo (''Extracting '' @ show_nat (length paths) @ '' directories/files...'')
                  None st;
          (st2, results) = startAll c w paths st1
      in case promiseAll w results st2 of
           (st3, Rejected e) \<Rightarrow>
             (log LvError ''Error dumping files:'' (Some (errorText e)) st3, Fulfilled)
         | (st3, Fulfilled) \<Rightarrow> (st3, Fulfilled)
         | (st3, Pending) \<Rightarrow> (st3, Pending))"

subsection \<open>\<open>basename\<close> of \<open>node:path\<close>\<close>

text \<open>
  \<open>renameFiles\<close> computes the new name with \<open>basename(file.name, "_png.png")\<close>.
  \<open>basename\<close> is the function of Node's \<open>path\<close> module (POSIX flavour,
  \<open>lib/path.js\<close>), followed here statement by statement: the variables
  \<open>start\<close>, \<open>end\<close>, \<open>matchedSlash\<close>, \<open>extIdx\<close> and
  \<open>firstNonSlashEnd\<close>, the loop from the last character down with its
  \<open>break\<close>, the early \<open>return ''\<close> when the suffix is the whole path, and
  the final \<open>slice\<close>. The Windows flavour runs the same loop with the
  backslash as a second separator and after a drive-letter prefix; the two
  agree on every name that has neither.
\<close>

record bstate =
  bstart :: int
  bend :: int
  matchedSlash :: bool
  extIdx :: int
  firstNonSlashEnd :: int

definition jsSlice :: "string \<Rightarrow> int \<Rightarrow> int \<Rightarrow> string" where
  "jsSlice s a b =
     (let n = int (length s);
          from = (if a < 0 then max (n + a) 0 else min a n);
          to = (if b < 0 then max (n + b) 0 else min b n)
      in if from < to then take (nat (to - from)) (drop (nat from) s) else [])"

text \<open>
  The loop with a suffix; \<open>basenameSuffixLoop path suffix (Suc i) s\<close> is the
  iteration at index \<open>i\<close>, and \<open>0\<close> the exit at \<open>i = -1\<close>.
\<close>

fun basenameSuffixLoop :: "string \<Rightarrow> string \<Rightarrow> nat \<Rightarrow> bstate \<Rightarrow> bstate" where
  "basenameSuffixLoop path suffix 0 s = s"
| "basenameSuffixLoop path suffix (Suc i) s =
     (if path ! i = CHR ''/'' then
        (if \<not> matchedSlash s then s \<lparr> bstart := int i + 1 \<rparr>
         else basenameSuffixLoop path suffix i s)
      else
        (let s1 = (if firstNonSlashEnd s = -1
                   then s \<lparr> matchedSlash := False, firstNonSlashEnd := int i + 1 \<rparr>
                   else s);
             s2 = (if extIdx s1 \<ge> 0 then
                     (if path ! i = suffix ! nat (extIdx s1) then
                        (if extIdx s1 - 1 = -1
                         then s1 \<lparr> bend := int i, extIdx := extIdx s1 - 1 \<rparr>
                         else s1 \<lparr> extIdx := extIdx s1 - 1 \<rparr>)
                      else s1 \<lparr> bend := firstNonSlashEnd s1, extIdx := -1 \<rparr>)
                   else s1)
         in basenameSuffixLoop path suffix i s2))"

text \<open>The loop without a (usable) suffix.\<close>

fun basenamePlainLoop :: "string \<Rightarrow> nat \<Rightarrow> bstate \<Rightarrow> bstate" where
  "basenamePlainLoop path 0 s = s"
| "basenamePlainLoop path (Suc i) s =
     (if path ! i = CHR ''/'' then
        (if \<not> matchedSlash s then s \<lparr> bstart := int i + 1 \<rparr>
         else basenamePlainLoop path i s)
      else if bend s = -1 then
        basenamePlainLoop path i (s \<lparr> matchedSlash := False, bend := int i + 1 \<rparr>)
      else basenamePlainLoop path i s)"

definition basename :: "string \<Rightarrow> string \<Rightarrow> string" where
  "basename path suffix =
     (let s0 = \<lparr> bstart = 0, bend = -1, matchedSlash = True,
                 extIdx = int (length suffix) - 1, firstNonSlashEnd = -1 \<rparr>
      in if length suffix > 0 \<and> length suffix \<le> length path then
           (if suffix = path then []
            else
              (let s = basenameSuffixLoop path suffix (length path) s0;
                   e = (if bstart s = bend s then firstNonSlashEnd s
                        else if bend s = -1 then int (length path)
                        else bend s)
               in jsSlice path (bstart s) e))
         else
           (let s = basenamePlainLoop path (length path) s0
            in if bend s = -1 then [] else jsSlice path (bstart s) (bend s)))"

definition endsWith :: "string \<Rightarrow> string \<Rightarrow> bool" where
  "endsWith s suffix =
     (length suffix \<le> length s \<and> drop (length s - length suffix) s = suffix)"

subsection \<open>\<open>renameFiles\<close>\<close>

text \<open>
  The body of the \<open>for\<close> loop for one entry. Only \<open>rename\<close> can throw
  inside the inner \<open>try\<close>; its \<open>catch\<close> warns and the loop goes on.
\<close>

definition renameStep :: "'fs env \<Rightarrow> Dirent \<Rightarrow> 'fs state \<times> nat \<Rightarrow> 'fs state \<times> nat" where
  "renameStep w file sc =
     (let (st, renamedCount) = sc in
      if isFile file \<and> endsWith (name file) ''_png.png'' then
        (let oldPath = join (parentPath file) (name file);
             newName = basename (name file) ''_png.png'' @ ''.png'';
             newPath = join (dirname oldPath) newName;
             st1 = emit (Rename oldPath newPath) st
         in case rename w oldPath newPath (files st1) of
              Inl e \<Rightarrow>
                (log LvWarn (''Failed to rename '' @ name file @ '':'') (Some (errorText e)) st1,
                 renamedCount)
            | Inr fs' \<Rightarrow>
                (let st2 = st1 \<lparr> files := fs' \<rparr>;
                     n = renamedCount + 1
                 in if n mod 100 = 0
                    then (log LvDebug (''Renamed '' @ show_nat n @ '' files...'') None st2, n)
                    else (st2, n)))
      else (st, renamedCount))"

text \<open>
  The body awaits twice for an entry that qualifies: the dynamic import
  before it calls \<open>rename\<close>, and \<open>rename\<close> itself. Children that are still
  running may end at either. The first wait is placed before the body; the
  second after it, so that what the body does with the result of \<open>rename\<close>
  comes before the callbacks of the children that ended meanwhile.
\<close>

definition awaitInBody :: "'fs env \<Rightarrow> Dirent \<Rightarrow> 'fs state \<times> nat \<Rightarrow> 'fs state \<times> nat" where
  "awaitInBody w file sc =
     (if isFile file \<and> endsWith (name file) ''_png.png''
      then (awaitPoint w (fst sc), snd sc) else sc)"

fun renameLoop :: "'fs env \<Rightarrow> Dirent list \<Rightarrow> 'fs state \<times> nat \<Rightarrow> 'fs state \<times> nat" where
  "renameLoop w [] sc = sc"
| "renameLoop w (file # rest) sc =
     renameLoop w rest (awaitInBody w file (renameStep w file (awaitInBody w file sc)))"

text \<open>
  \<open>renameFiles\<close> calls \<open>readdir\<close> and waits for its listing, which is
  taken from the files as they are when the wait is over.
\<close>

definition renameFiles :: "Config \<Rightarrow> 'fs env \<Rightarrow> 'fs state \<Rightarrow> 'fs state \<times> outcome" where
  "renameFiles c w st =
     (let st1 = log LvInfo ''Renaming _png.png files to .png...'' None st;
          st2 = awaitPoint w (emit (Readdir (directory c)) st1)
      in case readdir w (directory c) (files st2) of
           Inl e \<Rightarrow> (log LvError ''Error renaming files:'' (Some (errorText e)) st2, Fulfilled)
         | Inr entries \<Rightarrow>
             (let (st3, renamedCount) = renameLoop w entries (st2, 0)
              in (log LvInfo (''Successfully renamed '' @ show_nat renamedCount @ '' PNG files'')
                    None st3,
                  Fulfilled)))"

subsection \<open>\<open>extractPNGs\<close>\<close>

definition executableOf :: "Config \<Rightarrow> string \<Rightarrow> string" where
  "executableOf c plat =
     (if plat = ''win32'' then directory c @ ''/'' @ source2Viewer c @ ''.exe''
      else directory c @ ''/'' @ source2Viewer c)"

text \<open>
  The \<open>try\<close> block: a \<open>return\<close> fulfils, a throw leaves with \<open>Rejected\<close>,
  and an \<open>await\<close> of a promise that stays pending is never left.
\<close>

definition extractPNGsBody :: "Config \<Rightarrow> 'fs env \<Rightarrow> 'fs state \<Rightarrow> 'fs state \<times> outcome" where
  "extractPNGsBody c w st =
     (let vpkPath = vpkPathOf c in
      if \<not> existsSync w vpkPath
      then (log LvError (''VPK file not found at: '' @ vpkPath) None st, Fulfilled)
      else
        (let executable = executableOf c (platform w) in
         if \<not> existsSync w executable
         then (log LvInfo ''Please ensure Source2Viewer-CLI.exe is in the data directory'' None
                 (log LvError (''Source2Viewer not found at: '' @ executable) None st),
               Fulfilled)
         else
           (case loadVPK c w (log LvInfo ''Loading VPK files...'' None st) of
              (st1, Rejected e) \<Rightarrow> (st1, Rejected e)
            | (st1, Pending) \<Rightarrow> (st1, Pending)
            | (st1, Fulfilled) \<Rightarrow>
                (case dumpFiles c w (log LvInfo ''Starting PNG extraction...'' None st1) of
                   (st2, Rejected e) \<Rightarrow> (st2, Rejected e)
                 | (st2, Pending) \<Rightarrow> (st2, Pending)
                 | (st2, Fulfilled) \<Rightarrow>
                     (case renameFiles c w st2 of
                        (st3, Rejected e) \<Rightarrow> (st3, Rejected e)
                      | (st3, Pending) \<Rightarrow> (st3, Pending)
                      | (st3, Fulfilled) \<Rightarrow>
                          (log LvInfo ''PNG extraction completed successfully!'' None st3,
                           Fulfilled))))))"

definition extractPNGs :: "Config \<Rightarrow> 'fs env \<Rightarrow> 'fs state \<Rightarrow> 'fs state \<times> outcome" where
  "extractPNGs c w st =
     (case extractPNGsBody c w st of
        (st1, Rejected e) \<Rightarrow>
          (log LvError ''Error during extraction:'' (Some (errorText e)) st1, Fulfilled)
      | (st1, Fulfilled) \<Rightarrow> (st1, Fulfilled)
      | (st1, Pending) \<Rightarrow> (st1, Pending))"

subsection \<open>The constructor and the run to the end\<close>

text \<open>
  A new extractor has an empty trace and no child. The constructor starts
  \<open>extractPNGs\<close> and does not wait for it. The run goes on until nothing is
  left to happen: after \<open>extractPNGs\<close> the children that are still running
  and that end run their callbacks.
\<close>

definition freshState :: "'fs \<Rightarrow> 'fs state" where
  "freshState m = \<lparr> trace = [], files = m, running = [] \<rparr>"


subsection \<open>A file system with the \<open>rename\<close> of Node\<close>

text \<open>
  For the claims that depend on what \<open>rename\<close> does, a file system as a map
  from paths to nodes. \<open>fs.rename\<close> is documented so: if \<open>newPath\<close> already
  exists it is overwritten; if there is a directory at \<open>newPath\<close> an error is
  raised instead; a missing \<open>oldPath\<close> is an error.
\<close>

datatype node = File string | Directory

type_synonym fs = "fpath \<rightharpoonup> node"

definition nodeRename :: "fpath \<Rightarrow> fpath \<Rightarrow> fs \<Rightarrow> error + fs" where
  "nodeRename oldPath newPath m =
     (case m oldPath of
        None \<Rightarrow> Inl (JsError ''ENOENT: no such file or directory, rename'')
      | Some n \<Rightarrow>
          (case m newPath of
             Some Directory \<Rightarrow>
               Inl (JsError ''EISDIR: illegal operation on a directory, rename'')
           | _ \<Rightarrow> Inr ((m(oldPath := None))(newPath \<mapsto> n))))"

text \<open>
  \<open>readdir\<close> answering with a fixed listing, and a world around the file
  system above in which both prerequisites exist, the archive loads, every
  call of \<open>exec\<close> starts a child, and every child ends with success without
  touching the files, none of them during a later wait.
\<close>

definition listingEnv :: "Dirent list \<Rightarrow> fs env" where
  "listingEnv entries =
     \<lparr> platform = ''linux'', existsSync = (\<lambda>_. True), vpkLoad = (\<lambda>_. Inr 0),
       execThrows = (\<lambda>_. None), execHangs = (\<lambda>_. False),
       execError = (\<lambda>_. None), execEffect = (\<lambda>_ m. m), exitOrder = [],
       whileAwaiting = (\<lambda>_. []),
       readdir = (\<lambda>_ _. Inr entries), rename = nodeRename \<rparr>"

definition fileEntry :: "string \<Rightarrow> string \<Rightarrow> Dirent" where
  "fileEntry d n = \<lparr> name = n, parentPath = d, isFile = True \<rparr>"

section \<open>Reading the trace\<close>

text \<open>
  The events one executor and one completion add to the trace, the children
  that \<open>dumpFiles\<close> starts for a list of paths, and the rejection
  \<open>Promise.all\<close> sees first.
\<close>

definition startEvents :: "Config \<Rightarrow> 'fs env \<Rightarrow> string \<Rightarrow> event list" where
  "startEvents c w path =
     [Log LvDebug (''Dumping '' @ path @ ''...'') None,
      (case execThrows w (commandFor c (platform w) path) of
         Some e \<Rightarrow> ExecThrow (commandFor c (platform w) path)
       | None \<Rightarrow> ExecStart (commandFor c (platform w) path))]"

definition exitEvents :: "'fs env \<Rightarrow> child \<Rightarrow> event list" where
  "exitEvents w ch =
     ExecExit (snd ch)
     # (case execError w (snd ch) of
          Some m \<Rightarrow> [Log LvWarn (''Warning extracting '' @ fst ch @ '':'') (Some m)]
        | None \<Rightarrow> [])"

definition children :: "Config \<Rightarrow> 'fs env \<Rightarrow> string list \<Rightarrow> child list" where
  "children c w paths =
     map (\<lambda>p. (p, commandFor c (platform w) p))
       (filter (\<lambda>p. execThrows w (commandFor c (platform w) p) = None) paths)"

definition firstThrown :: "Config \<Rightarrow> 'fs env \<Rightarrow> string list \<Rightarrow> error option" where
  "firstThrown c w paths =
     firstRejection (map (\<lambda>p. execThrows w (commandFor c (platform w) p)) paths)"

text \<open>
  Projections of a trace: the command lines \<open>exec\<close> was called with, those
  of the children started, those of the children ended, the \<open>rename\<close>
  calls, the messages of the warnings, and the warnings of the rename pass.
\<close>

fun execCalls :: "event list \<Rightarrow> string list" where
  "execCalls [] = []"
| "execCalls (ExecStart cmd # es) = cmd # execCalls es"
| "execCalls (ExecThrow cmd # es) = cmd # execCalls es"
| "execCalls (_ # es) = execCalls es"

fun startedCmds :: "event list \<Rightarrow> string list" where
  "startedCmds [] = []"
| "startedCmds (ExecStart cmd # es) = cmd # startedCmds es"
| "startedCmds (_ # es) = startedCmds es"


fun renameCalls :: "event list \<Rightarrow> (fpath \<times> fpath) list" where
  "renameCalls [] = []"
| "renameCalls (Rename a b # es) = (a, b) # renameCalls es"
| "renameCalls (_ # es) = renameCalls es"

fun warnings :: "event list \<Rightarrow> string list" where
  "warnings [] = []"
| "warnings (Log LvWarn m x # es) = m # warnings es"
| "warnings (_ # es) = warnings es"

definition renameFailures :: "event list \<Rightarrow> string list" where
  "renameFailures tr = filter (\<lambda>m. take 17 m = ''Failed to rename '') (warnings tr)"

text \<open>
  Kinds of events: logger calls; the events of the rename pass itself; the
  events that neither start nor end a child nor belong to the rename pass;
  and the events of the rename pass together with the completions of
  children that end while it waits.
\<close>

fun isLog :: "event \<Rightarrow> bool" where
  "isLog (Log l m x) = True"
| "isLog _ = False"


fun isQuiet :: "event \<Rightarrow> bool" where
  "isQuiet (Log l m x) = True"
| "isQuiet (VpkLoad p) = True"
| "isQuiet (ExecThrow cmd) = True"
| "isQuiet _ = False"

fun isLateEvent :: "event \<Rightarrow> bool" where
  "isLateEvent (Log l m x) = True"
| "isLateEvent (Readdir d) = True"
| "isLateEvent (Rename a b) = True"
| "isLateEvent (ExecExit cmd) = True"
| "isLateEvent _ = False"

text \<open>
  The guard of the loop body of \<open>renameFiles\<close>, and the two arguments it
  computes for \<open>rename\<close>.
\<close>

definition renamable :: "Dirent \<Rightarrow> bool" where
  "renamable file = (isFile file \<and> endsWith (name file) ''_png.png'')"

definition renameCallOf :: "Dirent \<Rightarrow> fpath \<times> fpath" where
  "renameCallOf file =
     (join (parentPath file) (name file),
      join (dirname (join (parentPath file) (name file)))
        (basename (name file) ''_png.png'' @ ''.png''))"

text \<open>
  A monitor for the order of extraction and renaming. It reads a trace from
  the left and keeps the commands of the children that have started and not
  ended. The trace is in order when no child starts or ends once the rename
  pass has begun (its \<open>readdir\<close> or a \<open>rename\<close>), every completion belongs
  to a running child, and the rename pass begins with no child running.
\<close>

record watch =
  active :: "string list"
  inRenamePass :: bool
  sound :: bool

fun observe :: "watch \<Rightarrow> event \<Rightarrow> watch" where
  "observe m (ExecStart cmd) =
     m \<lparr> active := cmd # active m, sound := sound m \<and> \<not> inRenamePass m \<rparr>"
| "observe m (ExecExit cmd) =
     m \<lparr> active := remove1 cmd (active m),
         sound := sound m \<and> \<not> inRenamePass m \<and> cmd \<in> set (active m) \<rparr>"
| "observe m (Readdir d) =
     m \<lparr> inRenamePass := True, sound := sound m \<and> active m = [] \<rparr>"
| "observe m (Rename a b) =
     m \<lparr> inRenamePass := True, sound := sound m \<and> active m = [] \<rparr>"
| "observe m (Log l msg x) = m"
| "observe m (VpkLoad p) = m"
| "observe m (ExecThrow cmd) = m"

definition renameAfterExtraction :: "event list \<Rightarrow> bool" where
  "renameAfterExtraction tr =
     sound (foldl observe \<lparr> active = [], inRenamePass = False, sound = True \<rparr> tr)"




definition afterStart :: "Config \<Rightarrow> 'fs env \<Rightarrow> 'fs state \<Rightarrow> 'fs state" where
  "afterStart c w st =
     fst (startAll c w (pathsToDump c)
            (log LvInfo (''Extracting '' @ show_nat (length (pathsToDump c))
                           @ '' directories/files...'') None st))"

subsection \<open>Sample worlds\<close>

text \<open>
  Concrete worlds and file systems on which the theorems below are
  instantiated: no prerequisite present; one child failing; the \<open>exec\<close> of
  the first requested path throwing; both at once; every child hanging; the
  archive, every
  \<open>exec\<close>, \<open>readdir\<close> and \<open>rename\<close> all failing; a directory in which
  both \<open>foo_png.png\<close> and \<open>foo.png\<close> exist; one in which \<open>foo.png\<close> is a
  directory; one holding \<open>foo_png.png\<close> and \<open>bar.png\<close>; and one holding a
  file named exactly \<open>_png.png\<close>.
\<close>

definition noPrerequisitesEnv :: "fs env" where
  "noPrerequisitesEnv = (listingEnv []) \<lparr> existsSync := (\<lambda>_. False) \<rparr>"






definition collisionFiles :: fs where
  "collisionFiles =
     [FPath ''data'' ''foo_png.png'' \<mapsto> File ''extracted'',
      FPath ''data'' ''foo.png'' \<mapsto> File ''kept'']"

definition collisionEnv :: "fs env" where
  "collisionEnv = listingEnv [fileEntry ''data'' ''foo_png.png'', fileEntry ''data'' ''foo.png'']"

definition directoryTargetFiles :: fs where
  "directoryTargetFiles =
     [FPath ''data'' ''foo_png.png'' \<mapsto> File ''extracted'',
      FPath ''data'' ''foo.png'' \<mapsto> Directory]"

definition apartFiles :: fs where
  "apartFiles =
     [FPath ''data'' ''foo_png.png'' \<mapsto> File ''extracted'',
      FPath ''data'' ''bar.png'' \<mapsto> File ''kept'']"

definition apartEntries :: "Dirent list" where
  "apartEntries = [fileEntry ''data'' ''foo_png.png'', fileEntry ''data'' ''bar.png'']"

definition emptyStemFiles :: fs where
  "emptyStemFiles = [FPath ''data'' ''_png.png'' \<mapsto> File ''extracted'']"

definition emptyStemEnv :: "fs env" where
  "emptyStemEnv = listingEnv [fileEntry ''data'' ''_png.png'']"

section \<open>The archive index reader, from the specification\<close>

text \<open>
  \<open>loadVPK\<close> hands the archive to the \<open>vpk\<close> package, whose code is not
  part of the sources. The specification describes the reader it stands for
  (a binary reader, a directory parser); this section follows that
  description.
\<close>

unbundle bit_operations_syntax

text \<open>
  Modelled from the spec: the archive format works on a byte buffer.
\<close>

type_synonym byte = "8 word"

text \<open>
  Modelled from the spec: the failures the reader and the parser are specified
  to end with (sections 4.1 and 4.2).
\<close>

datatype parseError =
  OutOfBounds | UnterminatedString | InvalidSignature | UnsupportedVersion | MalformedEntry

text \<open>
  Modelled from the spec: the Binary Reader of section 4.1, "a fixed byte buffer
  and a mutable read cursor starting at 0". The \<open>vpk\<close> package that
  \<open>loadVPK\<close> calls is not among the sources.
\<close>

record reader =
  buffer :: "byte list"
  cursor :: nat

text \<open>
  Modelled from the spec: a reader on a buffer starts with its cursor at 0.
\<close>

definition openReader :: "byte list \<Rightarrow> reader" where
  "openReader buf = \<lparr> buffer = buf, cursor = 0 \<rparr>"

text \<open>
  Modelled from the spec: \<open>readUInt8\<close>, "analogous", one byte.
\<close>

definition readUInt8 :: "reader \<Rightarrow> parseError + (byte \<times> reader)" where
  "readUInt8 r =
     (if cursor r + 1 \<le> length (buffer r)
      then Inr (buffer r ! cursor r, r \<lparr> cursor := cursor r + 1 \<rparr>)
      else Inl OutOfBounds)"

text \<open>
  Modelled from the spec: \<open>readUInt16LE\<close>, "analogous", two bytes,
  little-endian.
\<close>

definition readUInt16LE :: "reader \<Rightarrow> parseError + (16 word \<times> reader)" where
  "readUInt16LE r =
     (if cursor r + 2 \<le> length (buffer r)
      then Inr (ucast (buffer r ! cursor r)
                  OR push_bit 8 (ucast (buffer r ! (cursor r + 1))),
                r \<lparr> cursor := cursor r + 2 \<rparr>)
      else Inl OutOfBounds)"

text \<open>
  Modelled from the spec: the value of four bytes read little-endian.
\<close>

definition le32 :: "byte \<Rightarrow> byte \<Rightarrow> byte \<Rightarrow> byte \<Rightarrow> 32 word" where
  "le32 b0 b1 b2 b3 =
     ucast b0 OR push_bit 8 (ucast b1) OR push_bit 16 (ucast b2) OR push_bit 24 (ucast b3)"

text \<open>
  Modelled from the spec: \<open>readUInt32LE\<close> "reads 4 bytes little-endian,
  advances cursor by 4; fails with OutOfBounds if fewer than 4 bytes remain".
\<close>

definition readUInt32LE :: "reader \<Rightarrow> parseError + (32 word \<times> reader)" where
  "readUInt32LE r =
     (if cursor r + 4 \<le> length (buffer r)
      then Inr (le32 (buffer r ! cursor r) (buffer r ! (cursor r + 1))
                  (buffer r ! (cursor r + 2)) (buffer r ! (cursor r + 3)),
                r \<lparr> cursor := cursor r + 4 \<rparr>)
      else Inl OutOfBounds)"

text \<open>
  Modelled from the spec: \<open>readInt32LE\<close>, the same four bytes read as a
  signed value.
\<close>

definition readInt32LE :: "reader \<Rightarrow> parseError + (int \<times> reader)" where
  "readInt32LE r =
     (case readUInt32LE r of
        Inl e \<Rightarrow> Inl e
      | Inr (w, r1) \<Rightarrow> Inr (sint w, r1))"

text \<open>
  Modelled from the spec: the bytes of a string are decoded as UTF-8; a HOL
  string is the sequence of those bytes.
\<close>

definition decodeBytes :: "byte list \<Rightarrow> string" where
  "decodeBytes bs = map (\<lambda>b. char_of (unat b)) bs"

text \<open>
  Modelled from the spec: \<open>readNullTerminatedString\<close> "reads bytes
  until a 0x00 byte (exclusive) or end of buffer; advances cursor past the
  terminator; fails with UnterminatedString if no terminator is found before
  buffer end".
\<close>

definition readNullTerminatedString :: "reader \<Rightarrow> parseError + (string \<times> reader)" where
  "readNullTerminatedString r =
     (let rest = drop (cursor r) (buffer r);
          bytes = takeWhile (\<lambda>b. b \<noteq> 0) rest
      in if length bytes < length rest
         then Inr (decodeBytes bytes, r \<lparr> cursor := cursor r + length bytes + 1 \<rparr>)
         else Inl UnterminatedString)"

text \<open>
  Modelled from the spec: \<open>tell\<close>, cursor introspection.
\<close>

definition tell :: "reader \<Rightarrow> nat" where
  "tell r = cursor r"

text \<open>
  Modelled from the spec: \<open>seek\<close>, cursor repositioning.
\<close>

definition seek :: "nat \<Rightarrow> reader \<Rightarrow> reader" where
  "seek offset r = r \<lparr> cursor := offset \<rparr>"

text \<open>
  Modelled from the spec: the Archive Header of section 3; the four further
  fields are present for version 2 only.
\<close>

record Header =
  magic :: "32 word"
  version :: "32 word"
  treeLength :: "32 word"
  embeddedChunkLength :: "32 word option"
  chunkHashLength :: "32 word option"
  selfHashLength :: "32 word option"
  signatureLength :: "32 word option"

text \<open>
  Modelled from the spec: the Entry of section 3, one record per packed file.
\<close>

record Entry =
  path :: string
  crc32 :: "32 word"
  preloadBytes :: "16 word"
  archiveIndex :: "16 word"
  entryOffset :: "32 word"
  entryLength :: "32 word"

text \<open>
  Modelled from the spec: "the fixed constant 0x55AA1234".
\<close>

definition VPK_SIGNATURE :: "32 word" where
  "VPK_SIGNATURE = 0x55AA1234"

text \<open>
  Modelled from the spec: the terminator tag, "a fixed uint16 value
  (0xFFFF) that must follow each entry's metadata".
\<close>

definition ENTRY_TERMINATOR :: "16 word" where
  "ENTRY_TERMINATOR = 0xFFFF"

text \<open>
  Modelled from the spec: steps 1 and 2 of the algorithm of section 4.2: read
  the magic and fail with InvalidSignature unless it is the constant; read
  version and tree length; for version 2 read four more fields; a version
  other than 1 or 2 fails with UnsupportedVersion.
\<close>

definition parseHeader :: "reader \<Rightarrow> parseError + (Header \<times> reader)" where
  "parseHeader r =
     (case readUInt32LE r of
        Inl e \<Rightarrow> Inl e
      | Inr (m, r1) \<Rightarrow>
          if m \<noteq> VPK_SIGNATURE then Inl InvalidSignature
          else
            (case readUInt32LE r1 of
               Inl e \<Rightarrow> Inl e
             | Inr (v, r2) \<Rightarrow>
                 (case readUInt32LE r2 of
                    Inl e \<Rightarrow> Inl e
                  | Inr (t, r3) \<Rightarrow>
                      if v = 2 then
                        (case readUInt32LE r3 of
                           Inl e \<Rightarrow> Inl e
                         | Inr (a, r4) \<Rightarrow>
                             (case readUInt32LE r4 of
                                Inl e \<Rightarrow> Inl e
                              | Inr (b, r5) \<Rightarrow>
                                  (case readUInt32LE r5 of
                                     Inl e \<Rightarrow> Inl e
                                   | Inr (c, r6) \<Rightarrow>
                                       (case readUInt32LE r6 of
                                          Inl e \<Rightarrow> Inl e
                                        | Inr (d, r7) \<Rightarrow>
                                            Inr (\<lparr> magic = m, version = v, treeLength = t,
                                                   embeddedChunkLength = Some a,
                                                   chunkHashLength = Some b,
                                                   selfHashLength = Some c,
                                                   signatureLength = Some d \<rparr>, r7)))))
                      else if v = 1 then
                        Inr (\<lparr> magic = m, version = v, treeLength = t,
                               embeddedChunkLength = None, chunkHashLength = None,
                               selfHashLength = None, signatureLength = None \<rparr>, r3)
                      else Inl UnsupportedVersion)))"

text \<open>
  Modelled from the spec: the path of an entry (step 3): the extension \<open>" "\<close>
  means no extension, the directory \<open>" "\<close> means the root, backslashes of
  the directory become forward slashes, and the path is directory, slash,
  file name, dot, extension, without the parts that are empty.
\<close>

definition entryPath :: "string \<Rightarrow> string \<Rightarrow> string \<Rightarrow> string" where
  "entryPath extension folder filename =
     (let ext = (if extension = '' '' then None else Some extension);
          d = (if folder = '' '' then []
               else map (\<lambda>ch. if ch = CHR 0x5C then CHR ''/'' else ch) folder)
      in (if d \<noteq> [] then d @ ''/'' else []) @ filename
         @ (case ext of None \<Rightarrow> [] | Some x \<Rightarrow> ''.'' @ x))"

text \<open>
  Modelled from the spec: the record of one entry (step 3): crc32, preload
  bytes, archive index, offset, length and terminator; MalformedEntry unless
  the terminator is 0xFFFF; the preload bytes are skipped at once.
\<close>

definition readEntry ::
  "string \<Rightarrow> string \<Rightarrow> string \<Rightarrow> reader \<Rightarrow> parseError + (Entry \<times> reader)" where
  "readEntry extension folder filename r =
     (case readUInt32LE r of
        Inl e \<Rightarrow> Inl e
      | Inr (crc, r1) \<Rightarrow>
     (case readUInt16LE r1 of
        Inl e \<Rightarrow> Inl e
      | Inr (preload, r2) \<Rightarrow>
     (case readUInt16LE r2 of
        Inl e \<Rightarrow> Inl e
      | Inr (idx, r3) \<Rightarrow>
     (case readUInt32LE r3 of
        Inl e \<Rightarrow> Inl e
      | Inr (off, r4) \<Rightarrow>
     (case readUInt32LE r4 of
        Inl e \<Rightarrow> Inl e
      | Inr (len, r5) \<Rightarrow>
     (case readUInt16LE r5 of
        Inl e \<Rightarrow> Inl e
      | Inr (term, r6) \<Rightarrow>
          if term \<noteq> ENTRY_TERMINATOR then Inl MalformedEntry
          else
            Inr (\<lparr> path = entryPath extension folder filename, crc32 = crc,
                   preloadBytes = preload, archiveIndex = idx, entryOffset = off,
                   entryLength = len \<rparr>,
                 if unat preload > 0 then seek (tell r6 + unat preload) r6 else r6)))))))"

text \<open>
  Modelled from the spec: the three nested loops of step 3, as the level at
  which the next string is read: an extension, a directory under an
  extension, or a file name under both.
\<close>

datatype treeLevel = Extensions | Directories string | Filenames string string

text \<open>
  Modelled from the spec: the loop of steps 3 and 4. An empty string ends the
  list at its level; the empty extension ends the parse, which is its only
  normal end; every failure of a read is the failure of the parse.
\<close>

function parseTree :: "treeLevel \<Rightarrow> reader \<Rightarrow> Entry list \<Rightarrow> parseError + Entry list" where
  "parseTree lvl r acc =
     (case readNullTerminatedString r of
        Inl e \<Rightarrow> Inl e
      | Inr (s, r1) \<Rightarrow>
          (case lvl of
             Extensions \<Rightarrow>
               if s = [] then Inr acc else parseTree (Directories s) r1 acc
           | Directories ext \<Rightarrow>
               if s = [] then parseTree Extensions r1 acc
               else parseTree (Filenames ext s) r1 acc
           | Filenames ext d \<Rightarrow>
               if s = [] then parseTree (Directories ext) r1 acc
               else
                 (case readEntry ext d s r1 of
                    Inl e \<Rightarrow> Inl e
                  | Inr (en, r2) \<Rightarrow> parseTree (Filenames ext d) r2 (acc @ [en]))))"
  by pat_completeness auto
termination
proof (relation "measure (\<lambda>(lvl, r, acc). length (buffer r) - cursor r)")
  show "wf (measure (\<lambda>(lvl, r, acc). length (buffer r) - cursor r))"
    by simp
next
  fix lvl :: treeLevel and r :: reader and acc :: "Entry list" and x s r1
  assume "readNullTerminatedString r = Inr x" and "(s, r1) = x"
  then have adv: "buffer r1 = buffer r \<and> cursor r < cursor r1 \<and> cursor r1 \<le> length (buffer r)"
    by (auto simp add: readNullTerminatedString_def Let_def split: if_splits)
  then have lt: "cursor r < length (buffer r)"
    by linarith
  have dec: "length (buffer r1) - cursor r1 < length (buffer r) - cursor r"
    using adv lt by (simp add: diff_less_mono2)
  then show "((Directories s, r1, acc), (lvl, r, acc))
             \<in> measure (\<lambda>(lvl, r, acc). length (buffer r) - cursor r)"
    by simp
  fix ext
  from dec show "((Extensions, r1, acc), (lvl, r, acc))
             \<in> measure (\<lambda>(lvl, r, acc). length (buffer r) - cursor r)"
    by simp
  from dec show "((Filenames ext s, r1, acc), (lvl, r, acc))
             \<in> measure (\<lambda>(lvl, r, acc). length (buffer r) - cursor r)"
    by simp
  fix d
  from dec show "((Directories ext, r1, acc), (lvl, r, acc))
             \<in> measure (\<lambda>(lvl, r, acc). length (buffer r) - cursor r)"
    by simp
  fix y en r2
  assume "readEntry ext d s r1 = Inr y" and "(en, r2) = y"
  then have "buffer r2 = buffer r1 \<and> cursor r1 \<le> cursor r2"
    by (auto simp add: readEntry_def readUInt32LE_def readUInt16LE_def seek_def tell_def
          split: sum.splits if_splits prod.splits)
  with adv lt have "length (buffer r2) - cursor r2 < length (buffer r) - cursor r"
    by (simp add: diff_less_mono2)
  then show "((Filenames ext d, r2, acc @ [en]), (lvl, r, acc))
             \<in> measure (\<lambda>(lvl, r, acc). length (buffer r) - cursor r)"
    by simp
qed

declare parseTree.simps [simp del]

text \<open>
  Modelled from the spec: \<open>parse\<close> of section 4.2, from the buffer to the
  header and the entries in the order of the tree.
\<close>

definition parse :: "byte list \<Rightarrow> parseError + (Header \<times> Entry list)" where
  "parse buf =
     (case parseHeader (openReader buf) of
        Inl e \<Rightarrow> Inl e
      | Inr (h, r) \<Rightarrow>
          (case parseTree Extensions r [] of
             Inl e \<Rightarrow> Inl e
           | Inr entries \<Rightarrow> Inr (h, entries)))"

definition wrongMagicArchive :: "byte list" where
  "wrongMagicArchive = [0x34, 0x12, 0xAA, 0x54, 1, 0, 0, 0, 0, 0, 0, 0]"

section \<open>Properties\<close>

subsection \<open>\<open>basename\<close> strips a suffix from a longer name\<close>

lemma suffix_step:
  assumes "pth ! i \<noteq> CHR ''/''" "pth ! i = suffix ! j" "f \<noteq> -1 \<longrightarrow> \<not> ms"
  shows "basenameSuffixLoop pth suffix (Suc i)
           \<lparr> bstart = a, bend = b, matchedSlash = ms, extIdx = int j, firstNonSlashEnd = f \<rparr> =
         basenameSuffixLoop pth suffix i
           \<lparr> bstart = a, bend = (if j = 0 then int i else b), matchedSlash = False,
             extIdx = int j - 1, firstNonSlashEnd = (if f = -1 then int i + 1 else f) \<rparr>"
  using assms by (auto simp add: Let_def)

lemma suffix_phase:
  assumes "CHR ''/'' \<notin> set suffix" "j < length suffix"
    and "f \<noteq> -1 \<longrightarrow> \<not> ms"
  shows "basenameSuffixLoop (stem @ suffix) suffix (Suc (length stem + j))
           \<lparr> bstart = a, bend = b, matchedSlash = ms, extIdx = int j, firstNonSlashEnd = f \<rparr> =
         basenameSuffixLoop (stem @ suffix) suffix (length stem)
           \<lparr> bstart = a, bend = int (length stem), matchedSlash = False, extIdx = -1,
             firstNonSlashEnd = (if f = -1 then int (length stem + j) + 1 else f) \<rparr>"
  using assms
proof (induction j arbitrary: b ms f)
  case 0
  then have ne: "(stem @ suffix) ! (length stem + 0) \<noteq> CHR ''/''"
    by (metis add.right_neutral nth_append_length_plus nth_mem)
  have eq: "(stem @ suffix) ! (length stem + 0) = suffix ! 0"
    by (simp add: nth_append)
  show ?case
    using suffix_step [OF ne eq "0.prems"(3), of a b] by (simp del: basenameSuffixLoop.simps)
next
  case (Suc j)
  have eq: "(stem @ suffix) ! (length stem + Suc j) = suffix ! Suc j"
    by (simp add: nth_append)
  have ne: "(stem @ suffix) ! (length stem + Suc j) \<noteq> CHR ''/''"
    using Suc.prems(1,2) eq by (metis nth_mem)
  let ?f = "if f = -1 then int (length stem + Suc j) + 1 else f"
  have step: "basenameSuffixLoop (stem @ suffix) suffix (Suc (length stem + Suc j))
                \<lparr> bstart = a, bend = b, matchedSlash = ms, extIdx = int (Suc j), firstNonSlashEnd = f \<rparr> =
              basenameSuffixLoop (stem @ suffix) suffix (Suc (length stem + j))
                \<lparr> bstart = a, bend = b, matchedSlash = False, extIdx = int j, firstNonSlashEnd = ?f \<rparr>"
    using suffix_step [OF ne eq Suc.prems(3), of a b] by (simp del: basenameSuffixLoop.simps)
  have f: "?f \<noteq> -1" by simp
  have "basenameSuffixLoop (stem @ suffix) suffix (Suc (length stem + j))
          \<lparr> bstart = a, bend = b, matchedSlash = False, extIdx = int j, firstNonSlashEnd = ?f \<rparr> =
        basenameSuffixLoop (stem @ suffix) suffix (length stem)
          \<lparr> bstart = a, bend = int (length stem), matchedSlash = False, extIdx = -1,
            firstNonSlashEnd = (if ?f = -1 then int (length stem + j) + 1 else ?f) \<rparr>"
    by (rule Suc.IH) (use Suc.prems in auto)
  with step f show ?case by (simp del: basenameSuffixLoop.simps)
qed

lemma stem_phase:
  assumes "CHR ''/'' \<notin> set stem" "k \<le> length stem" "extIdx s < 0" "firstNonSlashEnd s \<noteq> -1"
  shows "basenameSuffixLoop (stem @ suffix) suffix k s = s"
  using assms
proof (induction k)
  case 0 show ?case by simp
next
  case (Suc k)
  then have "stem ! k \<noteq> CHR ''/''" by (metis Suc_le_lessD nth_mem)
  with Suc show ?case by (simp add: nth_append Let_def)
qed

lemma basename_strips_suffix:
  assumes "CHR ''/'' \<notin> set stem" "CHR ''/'' \<notin> set suffix" "stem \<noteq> []" "suffix \<noteq> []"
  shows "basename (stem @ suffix) suffix = stem"
proof -
  obtain j where j: "length suffix = Suc j" using assms(4) by (cases suffix) auto
  let ?s0 = "\<lparr> bstart = 0, bend = -1, matchedSlash = True,
                 extIdx = int j, firstNonSlashEnd = -1 \<rparr>"
  let ?s1 = "\<lparr> bstart = 0, bend = int (length stem), matchedSlash = False,
                 extIdx = -1, firstNonSlashEnd = int (length stem + j) + 1 \<rparr>"
  have "basenameSuffixLoop (stem @ suffix) suffix (Suc (length stem + j)) ?s0 =
        basenameSuffixLoop (stem @ suffix) suffix (length stem) ?s1"
    using suffix_phase [OF assms(2), of j "-1" True stem 0 "-1"] j
    by (simp del: basenameSuffixLoop.simps)
  also have "\<dots> = ?s1"
    by (rule stem_phase) (use assms in auto)
  finally have loop: "basenameSuffixLoop (stem @ suffix) suffix (Suc (length stem + j)) ?s0 = ?s1" .
  have ne: "suffix \<noteq> stem @ suffix" using assms(3) by simp
  have len: "length (stem @ suffix) = Suc (length stem + j)" using j by simp
  have "basename (stem @ suffix) suffix = jsSlice (stem @ suffix) 0 (int (length stem))"
    unfolding basename_def Let_def len using ne assms(3) j loop
    by (simp del: basenameSuffixLoop.simps)
  then show ?thesis
    using assms(3) by (simp add: jsSlice_def Let_def min_def)
qed

subsection \<open>Executors, callbacks and waiting\<close>

lemma pickIndex_less: "n \<noteq> 0 \<Longrightarrow> pickIndex order n < n"
  by (cases order) (simp_all add: pickIndex_def)

lemma trace_emit [simp]: "trace (emit e st) = trace st @ [e]"
  by (simp add: emit_def)

lemma files_emit [simp]: "files (emit e st) = files st"
  by (simp add: emit_def)

lemma running_emit [simp]: "running (emit e st) = running st"
  by (simp add: emit_def)

lemma trace_log [simp]: "trace (log l m x st) = trace st @ [Log l m x]"
  by (simp add: log_def)

lemma files_log [simp]: "files (log l m x st) = files st"
  by (simp add: log_def)

lemma running_log [simp]: "running (log l m x st) = running st"
  by (simp add: log_def)

text \<open>The executors.\<close>

lemma startOne_facts:
  "trace (fst (startOne c w st pth)) = trace st @ startEvents c w pth"
  "files (fst (startOne c w st pth)) = files st"
  "running (fst (startOne c w st pth)) = running st @ children c w [pth]"
  "snd (startOne c w st pth) = execThrows w (commandFor c (platform w) pth)"
  by (simp_all add: startOne_def startEvents_def children_def Let_def split: option.splits)

lemma startAll_facts:
  "trace (fst (startAll c w ps st)) = trace st @ concat (map (startEvents c w) ps)"
  "files (fst (startAll c w ps st)) = files st"
  "running (fst (startAll c w ps st)) = running st @ children c w ps"
  "snd (startAll c w ps st) = map (\<lambda>p. execThrows w (commandFor c (platform w) p)) ps"
proof (induction ps arbitrary: st)
  case Nil
  {
    case 1 show ?case by simp
  next
    case 2 show ?case by simp
  next
    case 3 show ?case by (simp add: children_def)
  next
    case 4 show ?case by simp
  }
next
  case (Cons p ps)
  have ch: "children c w (p # ps) = children c w [p] @ children c w ps"
    by (simp add: children_def)
  {
    case 1 show ?case
      using Cons(1) [of "fst (startOne c w st p)"] startOne_facts(1) [of c w st p]
      by (simp add: split_beta Let_def)
  next
    case 2 show ?case
      using Cons(2) [of "fst (startOne c w st p)"] startOne_facts(2) [of c w st p]
      by (simp add: split_beta Let_def)
  next
    case 3 show ?case
      using Cons(3) [of "fst (startOne c w st p)"] startOne_facts(3) [of c w st p] ch
      by (simp add: split_beta Let_def)
  next
    case 4 show ?case
      using Cons(4) [of "fst (startOne c w st p)"] startOne_facts(4) [of c w st p]
      by (simp add: split_beta Let_def)
  }
qed

text \<open>Callbacks.\<close>

lemma execCallback_facts:
  "trace (execCallback w ch st) = trace st @ exitEvents w ch"
  "running (execCallback w ch st) = remove1 ch (running st)"
  by (simp_all add: execCallback_def exitEvents_def Let_def split: prod.splits option.splits)

lemma ending_subset: "set (ending w st) \<subseteq> set (running st)"
  by (auto simp add: ending_def)

lemma ending_Nil: "running st = [] \<Longrightarrow> ending w st = []"
  by (simp add: ending_def)

lemma ending_nth_running:
  "ending w st \<noteq> [] \<Longrightarrow> ending w st ! (k mod length (ending w st)) \<in> set (running st)"
  using ending_subset [of w st] by (meson length_greater_0_conv mod_less_divisor nth_mem subsetD)

lemma endSome_shape:
  "\<exists>chs. trace (endSome w ks st) = trace st @ concat (map (exitEvents w) chs)
        \<and> mset (running (endSome w ks st)) + mset chs = mset (running st)"
proof (induction ks arbitrary: st)
  case Nil
  have "trace (endSome w [] st) = trace st @ concat (map (exitEvents w) [])
        \<and> mset (running (endSome w [] st)) + mset [] = mset (running st)"
    by simp
  then show ?case by blast
next
  case (Cons k ks)
  show ?case
  proof (cases "ending w st = []")
    case True
    then have "trace (endSome w (k # ks) st) = trace st @ concat (map (exitEvents w) [])
        \<and> mset (running (endSome w (k # ks) st)) + mset [] = mset (running st)"
      by simp
    then show ?thesis by blast
  next
    case False
    let ?ch = "ending w st ! (k mod length (ending w st))"
    let ?st1 = "execCallback w ?ch st"
    have mem: "?ch \<in> set (running st)"
      using False by (rule ending_nth_running)
    from Cons [of ?st1] obtain chs where
      chs: "trace (endSome w ks ?st1) = trace ?st1 @ concat (map (exitEvents w) chs)"
        "mset (running (endSome w ks ?st1)) + mset chs = mset (running ?st1)"
      by blast
    have "trace (endSome w (k # ks) st) = trace st @ concat (map (exitEvents w) (?ch # chs))"
      using False chs(1) by (simp add: execCallback_facts)
    moreover have "mset (running (endSome w (k # ks) st)) + mset (?ch # chs) = mset (running st)"
      using False chs(2) mem by (simp add: execCallback_facts)
    ultimately show ?thesis by blast
  qed
qed

lemma endSome_idle: "running st = [] \<Longrightarrow> endSome w ks st = st"
  by (cases ks) (simp_all add: ending_Nil)

lemma awaitPoint_shape:
  "\<exists>chs. trace (awaitPoint w st) = trace st @ concat (map (exitEvents w) chs)
        \<and> mset (running (awaitPoint w st)) + mset chs = mset (running st)"
  unfolding awaitPoint_def by (rule endSome_shape)

lemma awaitPoint_idle: "running st = [] \<Longrightarrow> awaitPoint w st = st"
  by (simp add: awaitPoint_def endSome_idle)

lemma endAll_shape:
  "\<exists>chs. trace (endAll w order st) = trace st @ concat (map (exitEvents w) chs)
        \<and> mset (running (endAll w order st)) + mset chs = mset (running st)
        \<and> ending w (endAll w order st) = []"
proof (induction w order st rule: endAll.induct)
  case (1 w order st)
  show ?case
  proof (cases "ending w st = []")
    case True
    then have "trace (endAll w order st) = trace st @ concat (map (exitEvents w) [])
        \<and> mset (running (endAll w order st)) + mset [] = mset (running st)
        \<and> ending w (endAll w order st) = []"
      by (subst (1 2 3) endAll.simps) simp
    then show ?thesis by blast
  next
    case False
    let ?ch = "ending w st ! pickIndex order (length (ending w st))"
    let ?st1 = "execCallback w ?ch st"
    have "pickIndex order (length (ending w st)) < length (ending w st)"
      using False by (simp add: pickIndex_less)
    then have "?ch \<in> set (ending w st)" by (rule nth_mem)
    then have mem: "?ch \<in> set (running st)"
      using ending_subset [of w st] by blast
    have unf: "endAll w order st = endAll w (tl order) ?st1"
      using False by (subst endAll.simps) simp
    from "1.IH" [OF False] obtain chs where
      chs: "trace (endAll w (tl order) ?st1) = trace ?st1 @ concat (map (exitEvents w) chs)"
        "mset (running (endAll w (tl order) ?st1)) + mset chs = mset (running ?st1)"
        "ending w (endAll w (tl order) ?st1) = []"
      by blast
    have "trace (endAll w order st) = trace st @ concat (map (exitEvents w) (?ch # chs))"
      using chs(1) by (simp add: unf execCallback_facts)
    moreover have "mset (running (endAll w order st)) + mset (?ch # chs) = mset (running st)"
      using chs(2) mem by (simp add: unf execCallback_facts)
    moreover have "ending w (endAll w order st) = []"
      using chs(3) by (simp add: unf)
    ultimately show ?thesis by blast
  qed
qed



subsection \<open>The trace of \<open>dumpFiles\<close>\<close>

text \<open>Projections and appends.\<close>

lemma execCalls_append: "execCalls (xs @ ys) = execCalls xs @ execCalls ys"
  by (induction xs rule: execCalls.induct) simp_all

lemma startedCmds_append: "startedCmds (xs @ ys) = startedCmds xs @ startedCmds ys"
  by (induction xs rule: startedCmds.induct) simp_all


lemma renameCalls_append: "renameCalls (xs @ ys) = renameCalls xs @ renameCalls ys"
  by (induction xs rule: renameCalls.induct) simp_all

lemma warnings_append: "warnings (xs @ ys) = warnings xs @ warnings ys"
  by (induction xs rule: warnings.induct) simp_all

lemma renameFailures_append: "renameFailures (xs @ ys) = renameFailures xs @ renameFailures ys"
  by (simp add: renameFailures_def warnings_append)

lemma execCalls_starts:
  "execCalls (concat (map (startEvents c w) ps)) = map (commandFor c (platform w)) ps"
  by (induction ps) (simp_all add: startEvents_def split: option.splits)

lemma startedCmds_starts:
  "startedCmds (concat (map (startEvents c w) ps)) = map snd (children c w ps)"
  by (induction ps) (simp_all add: startEvents_def children_def split: option.splits)


lemma renameCalls_starts: "renameCalls (concat (map (startEvents c w) ps)) = []"
  by (induction ps) (simp_all add: startEvents_def split: option.splits)

lemma execCalls_exits: "execCalls (concat (map (exitEvents w) chs)) = []"
  by (induction chs) (simp_all add: exitEvents_def split: option.splits)



lemma renameCalls_exits: "renameCalls (concat (map (exitEvents w) chs)) = []"
  by (induction chs) (simp_all add: exitEvents_def split: option.splits)

lemma renameFailures_exits: "renameFailures (concat (map (exitEvents w) chs)) = []"
  by (induction chs)
    (simp_all add: exitEvents_def renameFailures_def warnings_append split: option.splits)

lemma late_exits: "list_all isLateEvent (concat (map (exitEvents w) chs))"
  by (induction chs) (simp_all add: exitEvents_def split: option.splits)

lemma isLog_late: "list_all isLog evs \<Longrightarrow> list_all isLateEvent evs"
  by (induction evs) (auto elim: isLog.elims)



lemma execCalls_late: "list_all isLateEvent evs \<Longrightarrow> execCalls evs = []"
  by (induction evs) (auto elim!: isLateEvent.elims)

lemma startedCmds_late: "list_all isLateEvent evs \<Longrightarrow> startedCmds evs = []"
  by (induction evs) (auto elim!: isLateEvent.elims)






lemma afterStart_facts:
  "trace (afterStart c w st) =
     trace st
     @ [Log LvInfo (''Extracting '' @ show_nat (length (pathsToDump c))
                      @ '' directories/files...'') None]
     @ concat (map (startEvents c w) (pathsToDump c))"
  "files (afterStart c w st) = files st"
  "running (afterStart c w st) = running st @ children c w (pathsToDump c)"
  by (simp_all add: afterStart_def startAll_facts)

lemma dumpFiles_threw:
  assumes "firstThrown c w (pathsToDump c) = Some e"
  shows "dumpFiles c w st =
         (log LvError ''Error dumping files:'' (Some (errorText e)) (afterStart c w st), Fulfilled)"
proof -
  have "firstRejection (snd (startAll c w (pathsToDump c)
          (log LvInfo (''Extracting '' @ show_nat (length (pathsToDump c))
                           @ '' directories/files...'') None st))) = Some e"
    using assms by (simp add: startAll_facts firstThrown_def)
  then show ?thesis
    by (simp add: dumpFiles_def promiseAll_def afterStart_def Let_def split_beta)
qed

lemma dumpFiles_waits:
  assumes "firstThrown c w (pathsToDump c) = None"
  shows "dumpFiles c w st =
         (endAll w (exitOrder w) (afterStart c w st),
          if running (endAll w (exitOrder w) (afterStart c w st)) = [] then Fulfilled else Pending)"
proof -
  have "firstRejection (snd (startAll c w (pathsToDump c)
          (log LvInfo (''Extracting '' @ show_nat (length (pathsToDump c))
                           @ '' directories/files...'') None st))) = None"
    using assms by (simp add: startAll_facts firstThrown_def)
  then show ?thesis
    by (simp add: dumpFiles_def promiseAll_def afterStart_def Let_def split_beta)
qed











subsection \<open>The trace of \<open>renameFiles\<close>\<close>

lemma renameStep_skip: "\<not> renamable ent \<Longrightarrow> renameStep w ent (st, k) = (st, k)"
  by (auto simp add: renameStep_def renamable_def)

lemma failed_to_rename_prefix: "take 17 (''Failed to rename '' @ n @ '':'') = ''Failed to rename ''"
  by simp

lemma renameFailures_Rename: "renameFailures (Rename a b # es) = renameFailures es"
  by (simp add: renameFailures_def)

lemma renameStep_shape:
  assumes "renamable ent"
  shows "\<exists>evs. trace (fst (renameStep w ent (st, k))) =
                 trace st @ Rename (fst (renameCallOf ent)) (snd (renameCallOf ent)) # evs
               \<and> list_all isLog evs \<and> renameCalls evs = []
               \<and> snd (renameStep w ent (st, k)) + length (renameFailures evs) = Suc k"
  using assms
  by (auto simp add: renameStep_def renamable_def renameCallOf_def Let_def renameFailures_def
           split: sum.splits)

lemma running_renameStep: "running (fst (renameStep w ent (st, k))) = running st"
  by (simp add: renameStep_def Let_def split: sum.splits)

lemma awaitInBody_skip: "\<not> renamable ent \<Longrightarrow> awaitInBody w ent sc = sc"
  by (auto simp add: awaitInBody_def renamable_def)

lemma awaitInBody_renamable:
  "renamable ent \<Longrightarrow> awaitInBody w ent (st, k) = (awaitPoint w st, k)"
  by (simp add: awaitInBody_def renamable_def)

text \<open>One turn of the loop.\<close>

lemma turn_shape:
  assumes "renamable ent"
  shows "\<exists>evs. trace (fst (awaitInBody w ent (renameStep w ent (awaitInBody w ent (st, k)))))
                 = trace st @ evs
               \<and> list_all isLateEvent evs
               \<and> renameCalls evs = [renameCallOf ent]
               \<and> snd (awaitInBody w ent (renameStep w ent (awaitInBody w ent (st, k))))
                   + length (renameFailures evs) = Suc k"
proof -
  let ?st1 = "awaitPoint w st"
  obtain st2 k2 where s: "renameStep w ent (?st1, k) = (st2, k2)"
    by (cases "renameStep w ent (?st1, k)")
  let ?st3 = "awaitPoint w st2"
  from awaitPoint_shape [of w st] obtain c1 where
    c1: "trace ?st1 = trace st @ concat (map (exitEvents w) c1)" by blast
  from renameStep_shape [OF assms, of w ?st1 k] s obtain e2 where
    e2: "trace st2 = trace ?st1 @ Rename (fst (renameCallOf ent)) (snd (renameCallOf ent)) # e2"
      "list_all isLog e2" "renameCalls e2 = []" "k2 + length (renameFailures e2) = Suc k"
    by auto
  from awaitPoint_shape [of w st2] obtain c3 where
    c3: "trace ?st3 = trace st2 @ concat (map (exitEvents w) c3)" by blast
  let ?evs = "concat (map (exitEvents w) c1)
              @ Rename (fst (renameCallOf ent)) (snd (renameCallOf ent)) # e2
              @ concat (map (exitEvents w) c3)"
  have r: "awaitInBody w ent (renameStep w ent (awaitInBody w ent (st, k))) = (?st3, k2)"
    using assms s by (simp add: awaitInBody_renamable)
  have "trace ?st3 = trace st @ ?evs"
    using c1 e2(1) c3 by simp
  moreover have "list_all isLateEvent ?evs"
    using e2(2) by (simp add: late_exits isLog_late)
  moreover have "renameCalls ?evs = [renameCallOf ent]"
    using e2(3) by (simp add: renameCalls_append renameCalls_exits)
  moreover have "renameFailures ?evs = renameFailures e2"
    using renameFailures_append [of "concat (map (exitEvents w) c1)"
            "Rename (fst (renameCallOf ent)) (snd (renameCallOf ent)) # e2
             @ concat (map (exitEvents w) c3)"]
      renameFailures_append [of "Rename (fst (renameCallOf ent)) (snd (renameCallOf ent)) # e2"
            "concat (map (exitEvents w) c3)"]
    by (simp add: renameFailures_exits renameFailures_Rename)
  ultimately show ?thesis
    using e2(4) unfolding r by (metis fst_conv snd_conv)
qed

lemma turn_skip:
  "\<not> renamable ent \<Longrightarrow>
   awaitInBody w ent (renameStep w ent (awaitInBody w ent (st, k))) = (st, k)"
  by (simp add: awaitInBody_skip renameStep_skip)



lemma turn_idle:
  assumes "running st = []"
  shows "awaitInBody w ent (renameStep w ent (awaitInBody w ent (st, k)))
         = renameStep w ent (st, k)"
proof (cases "renamable ent")
  case False
  then show ?thesis by (simp add: turn_skip renameStep_skip)
next
  case True
  obtain st2 k2 where s: "renameStep w ent (st, k) = (st2, k2)"
    by (cases "renameStep w ent (st, k)")
  have "running st2 = []"
    using running_renameStep [of w ent st k] s assms by simp
  then show ?thesis
    using True s assms by (simp add: awaitInBody_renamable awaitPoint_idle)
qed

text \<open>The loop.\<close>

lemma renameLoop_shape:
  "\<exists>evs. trace (fst (renameLoop w entries (st, k))) = trace st @ evs
         \<and> list_all isLateEvent evs
         \<and> renameCalls evs = map renameCallOf (filter renamable entries)
         \<and> snd (renameLoop w entries (st, k)) + length (renameFailures evs)
             = k + length (filter renamable entries)"
proof (induction entries arbitrary: st k)
  case Nil
  show ?case by (simp add: renameFailures_def)
next
  case (Cons ent rest)
  show ?case
  proof (cases "renamable ent")
    case False
    with Cons [of st k] show ?thesis by (simp add: turn_skip)
  next
    case True
    obtain st1 k1 where
      s: "awaitInBody w ent (renameStep w ent (awaitInBody w ent (st, k))) = (st1, k1)"
      by (cases "awaitInBody w ent (renameStep w ent (awaitInBody w ent (st, k)))")
    from turn_shape [OF True, of w st k] s obtain e1 where
      e1: "trace st1 = trace st @ e1" "list_all isLateEvent e1"
        "renameCalls e1 = [renameCallOf ent]" "k1 + length (renameFailures e1) = Suc k"
      by auto
    from Cons [of st1 k1] obtain e2 where
      e2: "trace (fst (renameLoop w rest (st1, k1))) = trace st1 @ e2"
        "list_all isLateEvent e2"
        "renameCalls e2 = map renameCallOf (filter renamable rest)"
        "snd (renameLoop w rest (st1, k1)) + length (renameFailures e2)
           = k1 + length (filter renamable rest)"
      by auto
    have "trace (fst (renameLoop w (ent # rest) (st, k))) = trace st @ (e1 @ e2)"
      using s e1(1) e2(1) by simp
    moreover have "list_all isLateEvent (e1 @ e2)"
      using e1(2) e2(2) by simp
    moreover have "renameCalls (e1 @ e2) = map renameCallOf (filter renamable (ent # rest))"
      using True e1(3) e2(3) by (simp add: renameCalls_append)
    moreover have "snd (renameLoop w (ent # rest) (st, k)) + length (renameFailures (e1 @ e2))
                   = k + length (filter renamable (ent # rest))"
      using True s e1(4) e2(4) by (simp add: renameFailures_append)
    ultimately show ?thesis by blast
  qed
qed










subsection \<open>The monitor and the ways through \<open>extractPNGs\<close>\<close>

lemma observe_quiet: "list_all isQuiet evs \<Longrightarrow> foldl observe m evs = m"
  by (induction evs arbitrary: m) (auto elim: isQuiet.elims)




lemma observe_unsound: "\<not> sound m \<Longrightarrow> \<not> sound (foldl observe m evs)"
proof (induction evs arbitrary: m)
  case Nil
  then show ?case by simp
next
  case (Cons e evs)
  have "\<not> sound (observe m e)"
    using Cons.prems by (cases e) simp_all
  then show ?case using Cons.IH by simp
qed

text \<open>The ways through extractPNGs.\<close>

lemma extractPNGs_no_archive:
  assumes "\<not> existsSync w (vpkPathOf c)"
  shows "extractPNGs c w st
         = (log LvError (''VPK file not found at: '' @ vpkPathOf c) None st, Fulfilled)"
  using assms by (simp add: extractPNGs_def extractPNGsBody_def)

lemma extractPNGs_no_tool:
  assumes "existsSync w (vpkPathOf c)" "\<not> existsSync w (executableOf c (platform w))"
  shows "extractPNGs c w st
         = (log LvInfo ''Please ensure Source2Viewer-CLI.exe is in the data directory'' None
              (log LvError (''Source2Viewer not found at: '' @ executableOf c (platform w)) None st),
            Fulfilled)"
  using assms by (simp add: extractPNGs_def extractPNGsBody_def)











subsection \<open>Requested paths, invocations, order and prerequisites\<close>

lemma commandFor_inject [simp]:
  "commandFor c plat p = commandFor c plat q \<longleftrightarrow> p = q"
  by (simp add: commandFor_def Let_def)

lemma commandFor_template:
  "\<exists>pre post. \<forall>p. commandFor c plat p
                     = pre @ '' --vpk_filepath '' @ dquote @ p @ dquote @ post"
proof -
  let ?pre = "(if plat = ''win32''
               then dquote @ directory c @ backslash @ source2Viewer c @ ''.exe'' @ dquote
               else directory c @ ''/'' @ source2Viewer c)
              @ '' --input '' @ dquote @ directory c @ backslash @ ''game''
              @ backslash @ ''csgo'' @ backslash @ ''pak01_dir.vpk'' @ dquote"
  let ?post = "'' -o '' @ dquote @ directory c @ dquote @ '' -d ''
               @ (if plat = ''win32'' then ''> nul 2>&1'' else ''> /dev/null 2>&1'')"
  have "\<forall>p. commandFor c plat p = ?pre @ '' --vpk_filepath '' @ dquote @ p @ dquote @ ?post"
    by (simp add: commandFor_def Let_def)
  then show ?thesis by blast
qed


lemma trace_dumpFiles:
  "\<exists>evs. trace (fst (dumpFiles c w st)) = trace (afterStart c w st) @ evs
         \<and> list_all isLateEvent evs"
proof (cases "firstThrown c w (pathsToDump c)")
  case (Some e)
  then have "trace (fst (dumpFiles c w st))
             = trace (afterStart c w st) @ [Log LvError ''Error dumping files:'' (Some (errorText e))]
             \<and> list_all isLateEvent [Log LvError ''Error dumping files:'' (Some (errorText e))]"
    by (simp add: dumpFiles_threw)
  then show ?thesis by blast
next
  case None
  from endAll_shape [of w "exitOrder w" "afterStart c w st"] obtain chs where
    "trace (endAll w (exitOrder w) (afterStart c w st))
     = trace (afterStart c w st) @ concat (map (exitEvents w) chs)"
    by blast
  then have "trace (fst (dumpFiles c w st))
             = trace (afterStart c w st) @ concat (map (exitEvents w) chs)
             \<and> list_all isLateEvent (concat (map (exitEvents w) chs))"
    using None by (simp add: dumpFiles_waits late_exits)
  then show ?thesis by blast
qed

text \<open>
  Claim C8. Whatever the flags of the configuration, the two metadata paths
  of \<open>neededFiles\<close> are among the paths \<open>dumpFiles\<close> requests.
\<close>

theorem C8_metadata_always_requested:
  "''scripts/items/items_game.txt'' \<in> set (pathsToDump c)
   \<and> ''resource/csgo_english.txt'' \<in> set (pathsToDump c)"
  by (simp add: pathsToDump_def neededFiles_def)

text \<open>
  Claim C7. \<open>dumpFiles\<close> calls \<open>exec\<close> exactly once per requested path:
  the command lines it hands to \<open>exec\<close> are, in order, those built from
  the elements of \<open>pathsToDump\<close>, and there are as many as requested
  paths. The processes started are those of the calls that did not throw.
  Each command line is one fixed text around its path: the path, between
  double quotes, is the argument of \<open>--vpk_filepath\<close>, and nothing else of
  the command line depends on it.
\<close>

theorem C7_one_invocation_per_prefix:
  "execCalls (trace (fst (dumpFiles c w st))) =
     execCalls (trace st) @ map (commandFor c (platform w)) (pathsToDump c)
   \<and> length (execCalls (trace (fst (dumpFiles c w st)))) =
     length (execCalls (trace st)) + length (pathsToDump c)
   \<and> startedCmds (trace (fst (dumpFiles c w st))) =
     startedCmds (trace st)
     @ map (commandFor c (platform w))
         (filter (\<lambda>p. execThrows w (commandFor c (platform w) p) = None) (pathsToDump c))
   \<and> (\<exists>pre post. \<forall>p. commandFor c (platform w) p
                        = pre @ '' --vpk_filepath '' @ dquote @ p @ dquote @ post)"
proof -
  from trace_dumpFiles [of c w st] obtain evs where
    evs: "trace (fst (dumpFiles c w st)) = trace (afterStart c w st) @ evs"
      "list_all isLateEvent evs"
    by blast
  have calls: "execCalls (trace (fst (dumpFiles c w st))) =
     execCalls (trace st) @ map (commandFor c (platform w)) (pathsToDump c)"
    using evs by (simp add: afterStart_facts execCalls_append execCalls_starts execCalls_late)
  have started: "startedCmds (trace (fst (dumpFiles c w st))) =
     startedCmds (trace st)
     @ map (commandFor c (platform w))
         (filter (\<lambda>p. execThrows w (commandFor c (platform w) p) = None) (pathsToDump c))"
    using evs
    by (simp add: afterStart_facts startedCmds_append startedCmds_starts startedCmds_late
          children_def comp_def)
  show ?thesis
    using calls started commandFor_template [of c "platform w"] by simp
qed

lemma renameAfterExtraction_rejects:
  "\<not> renameAfterExtraction [ExecStart ''a'', Readdir ''data'', ExecExit ''a'']"
  by (simp add: renameAfterExtraction_def)





text \<open>
  Claim C6. If the archive directory file or the executable of the external
  tool is absent, \<open>extractPNGs\<close> only logs the diagnostic and returns: the
  file system is untouched and the trace gains nothing but the diagnostic
  lines, so no archive load, no process, no \<open>readdir\<close> and no \<open>rename\<close>
  happens.
\<close>

theorem C6_missing_prerequisite_aborts:
  assumes "\<not> existsSync w (vpkPathOf c) \<or> \<not> existsSync w (executableOf c (platform w))"
  shows "snd (extractPNGs c w st) = Fulfilled
       \<and> files (fst (extractPNGs c w st)) = files st
       \<and> trace (fst (extractPNGs c w st)) =
           trace st @
           (if \<not> existsSync w (vpkPathOf c)
            then [Log LvError (''VPK file not found at: '' @ vpkPathOf c) None]
            else [Log LvError (''Source2Viewer not found at: '' @ executableOf c (platform w)) None,
                  Log LvInfo ''Please ensure Source2Viewer-CLI.exe is in the data directory'' None])"
proof (cases "existsSync w (vpkPathOf c)")
  case False
  then show ?thesis by (simp add: extractPNGs_no_archive)
next
  case True
  with assms have "\<not> existsSync w (executableOf c (platform w))" by simp
  with True show ?thesis by (simp add: extractPNGs_no_tool)
qed

text \<open>
  Witness for C6: a world in which neither file exists.
\<close>

theorem C6_missing_prerequisite_aborts_witness:
  "snd (extractPNGs MAIN_CONFIG noPrerequisitesEnv (freshState Map.empty)) = Fulfilled
   \<and> trace (fst (extractPNGs MAIN_CONFIG noPrerequisitesEnv (freshState Map.empty))) =
       [Log LvError ''VPK file not found at: data/game/csgo/pak01_dir.vpk'' None]"
  using C6_missing_prerequisite_aborts [of noPrerequisitesEnv MAIN_CONFIG "freshState Map.empty"]
  by (simp add: noPrerequisitesEnv_def listingEnv_def freshState_def vpkPathOf_def
        MAIN_CONFIG_def DEFAULT_CONFIG_def)

subsection \<open>Pending and fulfilled promises\<close>








lemma renameLoop_calls:
  "renameCalls (trace (fst (renameLoop w entries (st, k))))
     = renameCalls (trace st) @ map renameCallOf (filter renamable entries)"
  "snd (renameLoop w entries (st, k))
     + length (renameFailures (trace (fst (renameLoop w entries (st, k)))))
     = k + length (renameFailures (trace st)) + length (filter renamable entries)"
proof -
  from renameLoop_shape [of w entries st k] obtain evs where
    evs: "trace (fst (renameLoop w entries (st, k))) = trace st @ evs"
      "renameCalls evs = map renameCallOf (filter renamable entries)"
      "snd (renameLoop w entries (st, k)) + length (renameFailures evs)
         = k + length (filter renamable entries)"
    by blast
  show "renameCalls (trace (fst (renameLoop w entries (st, k))))
     = renameCalls (trace st) @ map renameCallOf (filter renamable entries)"
    using evs(1,2) by (simp add: renameCalls_append)
  show "snd (renameLoop w entries (st, k))
     + length (renameFailures (trace (fst (renameLoop w entries (st, k)))))
     = k + length (renameFailures (trace st)) + length (filter renamable entries)"
    using evs(1,3) by (simp add: renameFailures_append)
qed



subsection \<open>The rename rule\<close>

lemma endsWith_append: "endsWith (stem @ suffix) suffix"
  by (simp add: endsWith_def)

lemma png_suffix_no_slash: "CHR ''/'' \<notin> set ''_png.png''"
  by simp

lemma newName_of_stem:
  assumes "stem \<noteq> []" "CHR ''/'' \<notin> set stem"
  shows "basename (stem @ ''_png.png'') ''_png.png'' @ ''.png'' = stem @ ''.png''"
  using basename_strips_suffix [OF assms(2) png_suffix_no_slash assms(1)] by simp

lemma renameStep_call:
  assumes "isFile ent" "name ent = stem @ ''_png.png''" "stem \<noteq> []" "CHR ''/'' \<notin> set stem"
  shows "renameStep w ent (st, k) =
         (case rename w (FPath (parentPath ent) (stem @ ''_png.png''))
                 (FPath (parentPath ent) (stem @ ''.png'')) (files st) of
            Inl e \<Rightarrow>
              (log LvWarn (''Failed to rename '' @ name ent @ '':'') (Some (errorText e))
                 (emit (Rename (FPath (parentPath ent) (stem @ ''_png.png''))
                          (FPath (parentPath ent) (stem @ ''.png''))) st), k)
          | Inr fs' \<Rightarrow>
              (if Suc k mod 100 = 0
               then (log LvDebug (''Renamed '' @ show_nat (Suc k) @ '' files...'') None
                       ((emit (Rename (FPath (parentPath ent) (stem @ ''_png.png''))
                          (FPath (parentPath ent) (stem @ ''.png''))) st) \<lparr> files := fs' \<rparr>), Suc k)
               else ((emit (Rename (FPath (parentPath ent) (stem @ ''_png.png''))
                          (FPath (parentPath ent) (stem @ ''.png''))) st) \<lparr> files := fs' \<rparr>, Suc k)))"
proof -
  have n: "basename (name ent) ''_png.png'' @ ''.png'' = stem @ ''.png''"
    using newName_of_stem [OF assms(3,4)] assms(2) by simp
  have e: "endsWith (name ent) ''_png.png''"
    using assms(2) endsWith_append [of stem "''_png.png''"] by simp
  show ?thesis
    unfolding renameStep_def
    using assms(1) e n assms(2)
    by (simp add: join_def dirname_def Let_def split: sum.splits)
qed

lemma nodeRename_replaces:
  assumes "m a = Some nd" "m b \<noteq> Some Directory"
  shows "nodeRename a b m = Inr ((m(a := None))(b \<mapsto> nd))"
  using assms by (simp add: nodeRename_def split: option.splits node.splits)

lemma nodeRename_onto_directory:
  assumes "m a = Some nd" "m b = Some Directory"
  shows "nodeRename a b m = Inl (JsError ''EISDIR: illegal operation on a directory, rename'')"
  using assms by (simp add: nodeRename_def)

lemma renameStep_elsewhere:
  assumes "rename w = nodeRename"
    and "p \<noteq> fst (renameCallOf ent)" and "p \<noteq> snd (renameCallOf ent)"
  shows "files (fst (renameStep w ent (st, k))) p = files st p"
  using assms
  by (auto simp add: renameStep_def renameCallOf_def nodeRename_def Let_def
        split: sum.splits option.splits node.splits if_splits)

lemma renameLoop_elsewhere:
  assumes "rename w = nodeRename" and "running st = []"
    and "\<forall>e \<in> set entries. renamable e \<longrightarrow> fst (renameCallOf e) \<noteq> p \<and> snd (renameCallOf e) \<noteq> p"
  shows "files (fst (renameLoop w entries (st, k))) p = files st p"
  using assms(2,3)
proof (induction entries arbitrary: st k)
  case Nil
  show ?case by simp
next
  case (Cons ent rest)
  obtain st1 k1 where s: "renameStep w ent (st, k) = (st1, k1)"
    by (cases "renameStep w ent (st, k)")
  have r1: "running st1 = []"
    using running_renameStep [of w ent st k] s Cons.prems(1) by simp
  have f1: "files st1 p = files st p"
  proof (cases "renamable ent")
    case False
    then show ?thesis using s by (simp add: renameStep_skip)
  next
    case True
    then have "p \<noteq> fst (renameCallOf ent)" "p \<noteq> snd (renameCallOf ent)"
      using Cons.prems(2) by auto
    from renameStep_elsewhere [OF assms(1) this, of st k] s show ?thesis by simp
  qed
  have "files (fst (renameLoop w rest (st1, k1))) p = files st1 p"
    using Cons.IH [OF r1, of k1] Cons.prems(2) by simp
  then show ?case
    using s f1 turn_idle [OF Cons.prems(1), of w ent k] by simp
qed

lemma renamable_source:
  "renamable e \<Longrightarrow> \<not> endsWith n ''_png.png'' \<Longrightarrow> fst (renameCallOf e) \<noteq> FPath d n"
  by (auto simp add: renamable_def renameCallOf_def join_def)

text \<open>
  Claim C5 says that every visited file whose name does not end in
  \<open>_png.png\<close> is left untouched. Counterexample: in the directory with
  \<open>foo_png.png\<close> and \<open>foo.png\<close> the pass visits \<open>foo.png\<close>, whose name
  does not end in \<open>_png.png\<close>, and afterwards that name holds the content
  extracted to \<open>foo_png.png\<close> instead of the content it had.
\<close>

theorem C5_other_file_replaced_counterexample:
  "\<not> endsWith ''foo.png'' ''_png.png''
   \<and> files (freshState collisionFiles) (FPath ''data'' ''foo.png'') = Some (File ''kept'')
   \<and> files (fst (renameFiles DEFAULT_CONFIG collisionEnv (freshState collisionFiles)))
       (FPath ''data'' ''foo.png'') = Some (File ''extracted'')"
proof -
  have n: "basename ''foo_png.png'' ''_png.png'' = ''foo''"
    using basename_strips_suffix [of "''foo''" "''_png.png''"] by simp
  show ?thesis
    by (simp add: renameFiles_def collisionEnv_def listingEnv_def freshState_def
          collisionFiles_def DEFAULT_CONFIG_def renameStep_def fileEntry_def endsWith_def
          join_def dirname_def nodeRename_def n Let_def awaitPoint_def awaitInBody_def)
qed

lemma renameCallOf_stem:
  assumes "name ent = stem @ ''_png.png''" "stem \<noteq> []" "CHR ''/'' \<notin> set stem"
  shows "renameCallOf ent
        = (FPath (parentPath ent) (stem @ ''_png.png''), FPath (parentPath ent) (stem @ ''.png''))"
proof -
  have n: "basename (name ent) ''_png.png'' @ ''.png'' = stem @ ''.png''"
    using newName_of_stem [OF assms(2,3)] assms(1) by simp
  show ?thesis
    unfolding renameCallOf_def n by (simp add: join_def dirname_def assms(1))
qed

lemma renameLoop_calls_stem:
  assumes "ent \<in> set entries" "isFile ent" "name ent = stem @ ''_png.png''"
    "stem \<noteq> []" "CHR ''/'' \<notin> set stem"
  shows "(FPath (parentPath ent) (stem @ ''_png.png''), FPath (parentPath ent) (stem @ ''.png''))
          \<in> set (renameCalls (trace (fst (renameLoop w entries (st, k)))))"
proof -
  have r: "renamable ent"
    using assms(2,3) endsWith_append [of stem "''_png.png''"] by (simp add: renamable_def)
  have "ent \<in> set (filter renamable entries)"
    using assms(1) r by simp
  then have "renameCallOf ent \<in> set (map renameCallOf (filter renamable entries))"
    unfolding set_map by (rule imageI)
  then have "renameCallOf ent \<in> set (renameCalls (trace (fst (renameLoop w entries (st, k)))))"
    unfolding renameLoop_calls(1) by simp
  then show ?thesis
    unfolding renameCallOf_stem [OF assms(3,4,5)] .
qed

lemma renameStep_effect:
  assumes "rename w = nodeRename" "isFile ent" "name ent = stem @ ''_png.png''"
    "stem \<noteq> []" "CHR ''/'' \<notin> set stem"
    "files st (FPath (parentPath ent) (stem @ ''_png.png'')) = Some nd"
    "files st (FPath (parentPath ent) (stem @ ''.png'')) \<noteq> Some Directory"
  shows "files (fst (renameStep w ent (st, k))) (FPath (parentPath ent) (stem @ ''.png''))
          = Some nd"
    and "files (fst (renameStep w ent (st, k))) (FPath (parentPath ent) (stem @ ''_png.png''))
          = None"
    and "snd (renameStep w ent (st, k)) = Suc k"
proof -
  let ?a = "FPath (parentPath ent) (stem @ ''_png.png'')"
  let ?b = "FPath (parentPath ent) (stem @ ''.png'')"
  have r: "rename w ?a ?b (files st) = Inr (((files st)(?a := None))(?b \<mapsto> nd))"
    using assms(1,6,7) by (simp add: nodeRename_replaces)
  have s: "renameStep w ent (st, k) =
           (if Suc k mod 100 = 0
            then (log LvDebug (''Renamed '' @ show_nat (Suc k) @ '' files...'') None
                    ((emit (Rename ?a ?b) st) \<lparr> files := ((files st)(?a := None))(?b \<mapsto> nd) \<rparr>), Suc k)
            else ((emit (Rename ?a ?b) st) \<lparr> files := ((files st)(?a := None))(?b \<mapsto> nd) \<rparr>, Suc k))"
    using renameStep_call [OF assms(2,3,4,5), of w st k] r by simp
  show "files (fst (renameStep w ent (st, k))) ?b = Some nd"
    unfolding s by simp
  show "files (fst (renameStep w ent (st, k))) ?a = None"
    unfolding s by simp
  show "snd (renameStep w ent (st, k)) = Suc k"
    unfolding s by simp
qed

lemma renameLoop_never_source:
  assumes "\<not> endsWith n ''_png.png''"
  shows "filter (\<lambda>call. fst call = FPath d n)
            (renameCalls (trace (fst (renameLoop w entries (st, k)))))
          = filter (\<lambda>call. fst call = FPath d n) (renameCalls (trace st))"
proof -
  have "\<And>e. e \<in> set (filter renamable entries) \<Longrightarrow> fst (renameCallOf e) \<noteq> FPath d n"
    using renamable_source [OF _ assms] by simp
  then have "filter (\<lambda>call. fst call = FPath d n) (map renameCallOf (filter renamable entries)) = []"
    unfolding filter_empty_conv set_map by blast
  then show ?thesis
    unfolding renameLoop_calls(1) filter_append by simp
qed

lemma renameLoop_keeps:
  assumes "rename w = nodeRename" "running st = []" "\<not> endsWith n ''_png.png''"
    and "\<forall>e \<in> set entries. renamable e \<longrightarrow> snd (renameCallOf e) \<noteq> FPath d n"
  shows "files (fst (renameLoop w entries (st, k))) (FPath d n) = files st (FPath d n)"
proof (rule renameLoop_elsewhere [OF assms(1,2)], intro ballI impI conjI)
  fix e assume "e \<in> set entries" "renamable e"
  show "fst (renameCallOf e) \<noteq> FPath d n"
    using \<open>renamable e\<close> assms(3) by (rule renamable_source)
  show "snd (renameCallOf e) \<noteq> FPath d n"
    using assms(4) \<open>e \<in> set entries\<close> \<open>renamable e\<close> by simp
qed

text \<open>
  Claim C5 as amended. For every file visited by the rename pass: a regular
  file named \<open>stem_png.png\<close> with a non-empty stem (an entry name has no
  separator) is handed to \<open>rename\<close> with the target \<open>stem.png\<close> in its
  directory, in every world, and with the \<open>rename\<close> of Node it is found
  under that name, and no longer under the old one, when the call succeeds.
  A file whose name does not end in \<open>_png.png\<close> is never the source of a
  \<open>rename\<close> call of the pass, and its loop body changes nothing. While no
  child is running, it keeps its node through the whole pass unless its name
  is the target of the \<open>rename\<close> of another visited file, which then
  replaces it.
\<close>

theorem C5_rename_rule_of_the_pass:
  "(ent \<in> set entries \<and> isFile ent \<and> name ent = stem @ ''_png.png''
      \<and> stem \<noteq> [] \<and> CHR ''/'' \<notin> set stem
    \<longrightarrow> (FPath (parentPath ent) (stem @ ''_png.png''), FPath (parentPath ent) (stem @ ''.png''))
          \<in> set (renameCalls (trace (fst (renameLoop w entries (st, k))))))
   \<and> (rename w = nodeRename \<and> isFile ent \<and> name ent = stem @ ''_png.png''
      \<and> stem \<noteq> [] \<and> CHR ''/'' \<notin> set stem
      \<and> files st (FPath (parentPath ent) (stem @ ''_png.png'')) = Some nd
      \<and> files st (FPath (parentPath ent) (stem @ ''.png'')) \<noteq> Some Directory
    \<longrightarrow> files (fst (renameStep w ent (st, k))) (FPath (parentPath ent) (stem @ ''.png''))
          = Some nd
        \<and> files (fst (renameStep w ent (st, k))) (FPath (parentPath ent) (stem @ ''_png.png''))
          = None
        \<and> snd (renameStep w ent (st, k)) = Suc k)
   \<and> (\<not> endsWith (name other) ''_png.png''
    \<longrightarrow> renameStep w other (st, k) = (st, k)
        \<and> filter (\<lambda>call. fst call = FPath (parentPath other) (name other))
            (renameCalls (trace (fst (renameLoop w entries (st, k)))))
          = filter (\<lambda>call. fst call = FPath (parentPath other) (name other))
              (renameCalls (trace st)))
   \<and> (rename w = nodeRename \<and> running st = [] \<and> \<not> endsWith (name other) ''_png.png''
      \<and> (\<forall>e \<in> set entries.
            renamable e \<longrightarrow> snd (renameCallOf e) \<noteq> FPath (parentPath other) (name other))
    \<longrightarrow> files (fst (renameLoop w entries (st, k))) (FPath (parentPath other) (name other))
        = files st (FPath (parentPath other) (name other)))"
proof (intro conjI impI)
  assume "ent \<in> set entries \<and> isFile ent \<and> name ent = stem @ ''_png.png''
      \<and> stem \<noteq> [] \<and> CHR ''/'' \<notin> set stem"
  then show "(FPath (parentPath ent) (stem @ ''_png.png''), FPath (parentPath ent) (stem @ ''.png''))
          \<in> set (renameCalls (trace (fst (renameLoop w entries (st, k)))))"
    by (intro renameLoop_calls_stem) simp_all
next
  assume h: "rename w = nodeRename \<and> isFile ent \<and> name ent = stem @ ''_png.png''
      \<and> stem \<noteq> [] \<and> CHR ''/'' \<notin> set stem
      \<and> files st (FPath (parentPath ent) (stem @ ''_png.png'')) = Some nd
      \<and> files st (FPath (parentPath ent) (stem @ ''.png'')) \<noteq> Some Directory"
  then have a: "rename w = nodeRename" "isFile ent" "name ent = stem @ ''_png.png''"
    "stem \<noteq> []" "CHR ''/'' \<notin> set stem"
    "files st (FPath (parentPath ent) (stem @ ''_png.png'')) = Some nd"
    "files st (FPath (parentPath ent) (stem @ ''.png'')) \<noteq> Some Directory"
    by blast+
  show "files (fst (renameStep w ent (st, k))) (FPath (parentPath ent) (stem @ ''.png''))
          = Some nd"
    by (rule renameStep_effect(1) [OF a])
  show "files (fst (renameStep w ent (st, k))) (FPath (parentPath ent) (stem @ ''_png.png''))
          = None"
    by (rule renameStep_effect(2) [OF a])
  show "snd (renameStep w ent (st, k)) = Suc k"
    by (rule renameStep_effect(3) [OF a])
next
  assume h: "\<not> endsWith (name other) ''_png.png''"
  then show "renameStep w other (st, k) = (st, k)"
    by (simp add: renameStep_skip renamable_def)
  show "filter (\<lambda>call. fst call = FPath (parentPath other) (name other))
            (renameCalls (trace (fst (renameLoop w entries (st, k)))))
          = filter (\<lambda>call. fst call = FPath (parentPath other) (name other))
              (renameCalls (trace st))"
    using h by (rule renameLoop_never_source)
next
  assume h: "rename w = nodeRename \<and> running st = [] \<and> \<not> endsWith (name other) ''_png.png''
      \<and> (\<forall>e \<in> set entries.
            renamable e \<longrightarrow> snd (renameCallOf e) \<noteq> FPath (parentPath other) (name other))"
  then have a: "rename w = nodeRename" "running st = []" "\<not> endsWith (name other) ''_png.png''"
    "\<forall>e \<in> set entries.
            renamable e \<longrightarrow> snd (renameCallOf e) \<noteq> FPath (parentPath other) (name other)"
    by blast+
  show "files (fst (renameLoop w entries (st, k))) (FPath (parentPath other) (name other))
        = files st (FPath (parentPath other) (name other))"
    by (rule renameLoop_keeps [OF a])
qed

text \<open>
  Witness for the amended C5: the directory with \<open>foo_png.png\<close> and
  \<open>bar.png\<close>, both visited, both in the file system.
\<close>

theorem C5_rename_rule_of_the_pass_witness:
  "(FPath ''data'' ''foo_png.png'', FPath ''data'' ''foo.png'')
     \<in> set (renameCalls (trace (fst (renameLoop (listingEnv apartEntries) apartEntries
                                        (freshState apartFiles, 0)))))
   \<and> files (fst (renameStep (listingEnv apartEntries) (fileEntry ''data'' ''foo_png.png'')
                   (freshState apartFiles, 0)))
       (FPath ''data'' ''foo.png'') = Some (File ''extracted'')
   \<and> files (fst (renameStep (listingEnv apartEntries) (fileEntry ''data'' ''foo_png.png'')
                   (freshState apartFiles, 0)))
       (FPath ''data'' ''foo_png.png'') = None
   \<and> renameStep (listingEnv apartEntries) (fileEntry ''data'' ''bar.png'')
         (freshState apartFiles, 0)
       = (freshState apartFiles, 0)
   \<and> files (fst (renameLoop (listingEnv apartEntries) apartEntries (freshState apartFiles, 0)))
       (FPath ''data'' ''bar.png'') = Some (File ''kept'')"
proof -
  let ?foo = "fileEntry ''data'' ''foo_png.png''"
  let ?bar = "fileEntry ''data'' ''bar.png''"
  have n: "basename ''foo_png.png'' ''_png.png'' = ''foo''"
    using basename_strips_suffix [of "''foo''" "''_png.png''"] by simp
  have h1: "?foo \<in> set apartEntries \<and> isFile ?foo \<and> name ?foo = ''foo'' @ ''_png.png''
      \<and> ''foo'' \<noteq> [] \<and> CHR ''/'' \<notin> set ''foo''"
    by (simp add: apartEntries_def fileEntry_def)
  have h2: "rename (listingEnv apartEntries) = nodeRename \<and> isFile ?foo
      \<and> name ?foo = ''foo'' @ ''_png.png'' \<and> ''foo'' \<noteq> [] \<and> CHR ''/'' \<notin> set ''foo''
      \<and> files (freshState apartFiles) (FPath (parentPath ?foo) (''foo'' @ ''_png.png''))
          = Some (File ''extracted'')
      \<and> files (freshState apartFiles) (FPath (parentPath ?foo) (''foo'' @ ''.png''))
          \<noteq> Some Directory"
    by (simp add: listingEnv_def fileEntry_def freshState_def apartFiles_def)
  have h3: "\<not> endsWith (name ?bar) ''_png.png''"
    by (simp add: fileEntry_def endsWith_def)
  have c: "snd (renameCallOf ?foo) = FPath ''data'' ''foo.png''"
    by (simp add: renameCallOf_def fileEntry_def join_def dirname_def n)
  have r: "\<not> renamable ?bar"
    using h3 by (simp add: renamable_def)
  have h4: "rename (listingEnv apartEntries) = nodeRename \<and> running (freshState apartFiles) = []
      \<and> \<not> endsWith (name ?bar) ''_png.png''
      \<and> (\<forall>e \<in> set apartEntries.
            renamable e \<longrightarrow> snd (renameCallOf e) \<noteq> FPath (parentPath ?bar) (name ?bar))"
    using h3 c r by (simp add: listingEnv_def freshState_def apartEntries_def)
      (simp add: fileEntry_def)
  note T = C5_rename_rule_of_the_pass
             [of ?foo apartEntries "''foo''" "listingEnv apartEntries"
                 "freshState apartFiles" 0 "File ''extracted''" ?bar]
  have t1: "(FPath (parentPath ?foo) (''foo'' @ ''_png.png''),
             FPath (parentPath ?foo) (''foo'' @ ''.png''))
          \<in> set (renameCalls (trace (fst (renameLoop (listingEnv apartEntries) apartEntries
                                             (freshState apartFiles, 0)))))"
    using T h1 by blast
  have t2: "files (fst (renameStep (listingEnv apartEntries) ?foo (freshState apartFiles, 0)))
              (FPath (parentPath ?foo) (''foo'' @ ''.png'')) = Some (File ''extracted'')
        \<and> files (fst (renameStep (listingEnv apartEntries) ?foo (freshState apartFiles, 0)))
              (FPath (parentPath ?foo) (''foo'' @ ''_png.png'')) = None"
    using T h2 by blast
  have t3: "renameStep (listingEnv apartEntries) ?bar (freshState apartFiles, 0)
              = (freshState apartFiles, 0)"
    using T h3 by blast
  have t4: "files (fst (renameLoop (listingEnv apartEntries) apartEntries
                          (freshState apartFiles, 0)))
              (FPath (parentPath ?bar) (name ?bar))
            = files (freshState apartFiles) (FPath (parentPath ?bar) (name ?bar))"
    using T h4 by blast
  have p: "parentPath ?foo = ''data''" "parentPath ?bar = ''data''" "name ?bar = ''bar.png''"
    by (simp_all add: fileEntry_def)
  have k: "files (freshState apartFiles) (FPath ''data'' ''bar.png'') = Some (File ''kept'')"
    by (simp add: freshState_def apartFiles_def)
  show ?thesis
    using t1 t2 t3 t4 unfolding p k by simp
qed

text \<open>
  Claim C1 says that a collision (the target name exists already) is
  reported and the existing file not silently overwritten. Counterexample:
  with \<open>foo_png.png\<close> and \<open>foo.png\<close> in one directory, \<open>renameFiles\<close>
  leaves the extracted content under \<open>foo.png\<close>, the content kept there
  before is lost, and the trace holds no warning or error.
\<close>

theorem C1_collision_overwrites_counterexample:
  "files (fst (renameFiles DEFAULT_CONFIG collisionEnv (freshState collisionFiles)))
     (FPath ''data'' ''foo.png'') = Some (File ''extracted'')
   \<and> trace (fst (renameFiles DEFAULT_CONFIG collisionEnv (freshState collisionFiles)))
     = [Log LvInfo ''Renaming _png.png files to .png...'' None,
        Readdir ''data'',
        Rename (FPath ''data'' ''foo_png.png'') (FPath ''data'' ''foo.png''),
        Log LvInfo ''Successfully renamed 1 PNG files'' None]"
proof -
  have n: "basename ''foo_png.png'' ''_png.png'' = ''foo''"
    using basename_strips_suffix [of "''foo''" "''_png.png''"] by simp
  have one: "show_nat (Suc 0) = ''1''"
    by (simp add: show_nat.simps)
  show ?thesis
    by (simp add: renameFiles_def collisionEnv_def listingEnv_def freshState_def
          collisionFiles_def DEFAULT_CONFIG_def renameStep_def fileEntry_def endsWith_def
          join_def dirname_def nodeRename_def n one Let_def awaitPoint_def awaitInBody_def)
qed

text \<open>
  Claim C1 as amended. The loop makes no check for an existing target. When
  the target name exists as a regular file, \<open>rename\<close> replaces it by the
  renamed file, no warning is logged and the file counts as renamed. Only a
  failure of \<open>rename\<close> itself, as for a directory of the target name, is
  reported: by a warning for that file, with the files left as they were.
\<close>

theorem C1_rename_replaces_existing_file:
  assumes "rename w = nodeRename" and "isFile ent"
    and "name ent = stem @ ''_png.png''" and "stem \<noteq> []" and "CHR ''/'' \<notin> set stem"
  shows "(files st (FPath (parentPath ent) (stem @ ''_png.png'')) = Some (File x)
          \<and> files st (FPath (parentPath ent) (stem @ ''.png'')) = Some (File y)
        \<longrightarrow> files (fst (renameStep w ent (st, k))) (FPath (parentPath ent) (stem @ ''.png''))
              = Some (File x)
            \<and> files (fst (renameStep w ent (st, k))) (FPath (parentPath ent) (stem @ ''_png.png''))
              = None
            \<and> warnings (trace (fst (renameStep w ent (st, k)))) = warnings (trace st)
            \<and> snd (renameStep w ent (st, k)) = Suc k)
       \<and> (files st2 (FPath (parentPath ent) (stem @ ''_png.png'')) = Some (File x)
          \<and> files st2 (FPath (parentPath ent) (stem @ ''.png'')) = Some Directory
        \<longrightarrow> files (fst (renameStep w ent (st2, k))) = files st2
            \<and> warnings (trace (fst (renameStep w ent (st2, k))))
              = warnings (trace st2) @ [''Failed to rename '' @ name ent @ '':'']
            \<and> snd (renameStep w ent (st2, k)) = k)"
proof (intro conjI impI)
  let ?a = "FPath (parentPath ent) (stem @ ''_png.png'')"
  let ?b = "FPath (parentPath ent) (stem @ ''.png'')"
  assume h: "files st ?a = Some (File x) \<and> files st ?b = Some (File y)"
  then have r: "rename w ?a ?b (files st) = Inr (((files st)(?a := None))(?b \<mapsto> File x))"
    using assms(1) by (simp add: nodeRename_replaces)
  have s: "renameStep w ent (st, k) =
           (if Suc k mod 100 = 0
            then (log LvDebug (''Renamed '' @ show_nat (Suc k) @ '' files...'') None
                    ((emit (Rename ?a ?b) st) \<lparr> files := ((files st)(?a := None))(?b \<mapsto> File x) \<rparr>), Suc k)
            else ((emit (Rename ?a ?b) st) \<lparr> files := ((files st)(?a := None))(?b \<mapsto> File x) \<rparr>, Suc k))"
    using renameStep_call [OF assms(2-5), of w st k] r by simp
  show "files (fst (renameStep w ent (st, k))) ?b = Some (File x)"
    unfolding s by simp
  show "files (fst (renameStep w ent (st, k))) ?a = None"
    unfolding s by simp
  show "warnings (trace (fst (renameStep w ent (st, k)))) = warnings (trace st)"
    unfolding s by (simp add: warnings_append)
  show "snd (renameStep w ent (st, k)) = Suc k"
    unfolding s by simp
next
  let ?a = "FPath (parentPath ent) (stem @ ''_png.png'')"
  let ?b = "FPath (parentPath ent) (stem @ ''.png'')"
  assume h: "files st2 ?a = Some (File x) \<and> files st2 ?b = Some Directory"
  then have r: "rename w ?a ?b (files st2)
                = Inl (JsError ''EISDIR: illegal operation on a directory, rename'')"
    using assms(1) by (simp add: nodeRename_onto_directory)
  have s: "renameStep w ent (st2, k) =
           (log LvWarn (''Failed to rename '' @ name ent @ '':'')
              (Some (errorText (JsError ''EISDIR: illegal operation on a directory, rename'')))
              (emit (Rename ?a ?b) st2), k)"
    using renameStep_call [OF assms(2-5), of w st2 k] r by simp
  show "files (fst (renameStep w ent (st2, k))) = files st2"
    unfolding s by simp
  show "warnings (trace (fst (renameStep w ent (st2, k))))
        = warnings (trace st2) @ [''Failed to rename '' @ name ent @ '':'']"
    unfolding s by (simp add: warnings_append)
  show "snd (renameStep w ent (st2, k)) = k"
    unfolding s by simp
qed

text \<open>
  Witness for the amended C1: the two sample directories.
\<close>

theorem C1_rename_replaces_existing_file_witness:
  "files (fst (renameStep collisionEnv (fileEntry ''data'' ''foo_png.png'')
                 (freshState collisionFiles, 0)))
     (FPath ''data'' ''foo.png'') = Some (File ''extracted'')
   \<and> warnings (trace (fst (renameStep collisionEnv (fileEntry ''data'' ''foo_png.png'')
                 (freshState collisionFiles, 0)))) = []
   \<and> files (fst (renameStep collisionEnv (fileEntry ''data'' ''foo_png.png'')
                 (freshState directoryTargetFiles, 0))) = directoryTargetFiles
   \<and> warnings (trace (fst (renameStep collisionEnv (fileEntry ''data'' ''foo_png.png'')
                 (freshState directoryTargetFiles, 0)))) = [''Failed to rename foo_png.png:'']"
  using C1_rename_replaces_existing_file
          [of collisionEnv "fileEntry ''data'' ''foo_png.png''" "''foo''"
              "freshState collisionFiles" "''extracted''" "''kept''" 0
              "freshState directoryTargetFiles"]
  by (simp add: collisionEnv_def listingEnv_def fileEntry_def freshState_def
        collisionFiles_def directoryTargetFiles_def)

text \<open>
  Claim C10 says that a file named exactly \<open>_png.png\<close> is renamed to
  \<open>_png.png.png\<close>. Counterexample: \<open>basename\<close> returns the empty string
  when the suffix is the whole path, so the one \<open>rename\<close> call of the pass
  has the target \<open>.png\<close>, where the file is found afterwards; nothing is
  found under \<open>_png.png.png\<close>.
\<close>

theorem C10_empty_stem_counterexample:
  "renameCalls (trace (fst (renameFiles DEFAULT_CONFIG emptyStemEnv (freshState emptyStemFiles))))
     = [(FPath ''data'' ''_png.png'', FPath ''data'' ''.png'')]
   \<and> files (fst (renameFiles DEFAULT_CONFIG emptyStemEnv (freshState emptyStemFiles)))
       (FPath ''data'' ''.png'') = Some (File ''extracted'')
   \<and> files (fst (renameFiles DEFAULT_CONFIG emptyStemEnv (freshState emptyStemFiles)))
       (FPath ''data'' ''_png.png.png'') = None"
proof -
  have n: "basename ''_png.png'' ''_png.png'' = []"
    by (simp add: basename_def)
  show ?thesis
    by (simp add: renameFiles_def emptyStemEnv_def listingEnv_def freshState_def
          emptyStemFiles_def DEFAULT_CONFIG_def renameStep_def fileEntry_def endsWith_def
          join_def dirname_def nodeRename_def n Let_def awaitPoint_def awaitInBody_def)
qed

text \<open>
  Claim C10 as amended. For a regular file whose entire name is
  \<open>_png.png\<close>, \<open>basename\<close> gives the empty string, and the loop calls
  \<open>rename\<close> from \<open>_png.png\<close> to \<open>.png\<close> in the same directory: the
  suffix is stripped from an empty stem.
\<close>

theorem C10_empty_stem_becomes_dot_png:
  assumes "isFile ent" and "name ent = ''_png.png''"
  shows "basename (name ent) ''_png.png'' = []
       \<and> (\<exists>evs. trace (fst (renameStep w ent (st, k)))
                 = trace st @ Rename (FPath (parentPath ent) ''_png.png'')
                                (FPath (parentPath ent) ''.png'') # evs
               \<and> renameCalls evs = [])"
proof -
  have n: "basename (name ent) ''_png.png'' = []"
    using assms(2) by (simp add: basename_def)
  have r: "renamable ent"
    using assms by (simp add: renamable_def endsWith_def)
  have c: "renameCallOf ent = (FPath (parentPath ent) ''_png.png'', FPath (parentPath ent) ''.png'')"
    using assms(2) n by (simp add: renameCallOf_def join_def dirname_def)
  from renameStep_shape [OF r, of w st k] c n show ?thesis
    by auto
qed

text \<open>
  Witness for the amended C10: the sample directory with \<open>_png.png\<close>.
\<close>

theorem C10_empty_stem_becomes_dot_png_witness:
  "basename (name (fileEntry ''data'' ''_png.png'')) ''_png.png'' = []
   \<and> (\<exists>evs. trace (fst (renameStep emptyStemEnv (fileEntry ''data'' ''_png.png'')
                          (freshState emptyStemFiles, 0)))
             = trace (freshState emptyStemFiles)
               @ Rename (FPath (parentPath (fileEntry ''data'' ''_png.png'')) ''_png.png'')
                   (FPath (parentPath (fileEntry ''data'' ''_png.png'')) ''.png'') # evs
           \<and> renameCalls evs = [])"
  using C10_empty_stem_becomes_dot_png
          [of "fileEntry ''data'' ''_png.png''" emptyStemEnv "freshState emptyStemFiles" 0]
  by (simp add: fileEntry_def)

subsection \<open>A failed invocation\<close>


















subsection \<open>The magic number\<close>

lemma le32_byte0: "ucast (le32 b0 b1 b2 b3) = b0"
  unfolding le32_def by (rule bit_word_eqI) (auto simp add: bit_simps dest: bit_imp_le_length)

lemma le32_byte1: "ucast (drop_bit 8 (le32 b0 b1 b2 b3)) = b1"
  unfolding le32_def by (rule bit_word_eqI) (auto simp add: bit_simps dest: bit_imp_le_length)

lemma le32_byte2: "ucast (drop_bit 16 (le32 b0 b1 b2 b3)) = b2"
  unfolding le32_def by (rule bit_word_eqI) (auto simp add: bit_simps dest: bit_imp_le_length)

lemma le32_byte3: "ucast (drop_bit 24 (le32 b0 b1 b2 b3)) = b3"
  unfolding le32_def by (rule bit_word_eqI) (auto simp add: bit_simps dest: bit_imp_le_length)

lemma le32_signature:
  "le32 b0 b1 b2 b3 = VPK_SIGNATURE \<longleftrightarrow> b0 = 0x34 \<and> b1 = 0x12 \<and> b2 = 0xAA \<and> b3 = 0x55"
proof
  assume h: "le32 b0 b1 b2 b3 = VPK_SIGNATURE"
  have "b0 = ucast VPK_SIGNATURE" using le32_byte0 [of b0 b1 b2 b3] h by simp
  moreover have "b1 = ucast (drop_bit 8 VPK_SIGNATURE)" using le32_byte1 [of b0 b1 b2 b3] h by simp
  moreover have "b2 = ucast (drop_bit 16 VPK_SIGNATURE)" using le32_byte2 [of b0 b1 b2 b3] h by simp
  moreover have "b3 = ucast (drop_bit 24 VPK_SIGNATURE)" using le32_byte3 [of b0 b1 b2 b3] h by simp
  ultimately show "b0 = 0x34 \<and> b1 = 0x12 \<and> b2 = 0xAA \<and> b3 = 0x55"
    by (simp add: VPK_SIGNATURE_def)
next
  assume "b0 = 0x34 \<and> b1 = 0x12 \<and> b2 = 0xAA \<and> b3 = 0x55"
  then show "le32 b0 b1 b2 b3 = VPK_SIGNATURE"
    by (simp add: le32_def VPK_SIGNATURE_def)
qed

lemma parse_wrong_magic:
  assumes "readUInt32LE (openReader buf) = Inr (m, r)" and "m \<noteq> VPK_SIGNATURE"
  shows "parse buf = Inl InvalidSignature"
  using assms by (simp add: parse_def parseHeader_def)

lemma parse_short: "length buf < 4 \<Longrightarrow> parse buf = Inl OutOfBounds"
  by (simp add: parse_def parseHeader_def readUInt32LE_def openReader_def)

lemma parse_wrong_bytes:
  assumes "4 \<le> length buf" and "take 4 buf \<noteq> [0x34, 0x12, 0xAA, 0x55]"
  shows "parse buf = Inl InvalidSignature"
proof -
  obtain b0 t0 where t0: "buf = b0 # t0"
    using assms(1) by (cases buf) auto
  obtain b1 t1 where t1: "t0 = b1 # t1"
    using assms(1) t0 by (cases t0) auto
  obtain b2 t2 where t2: "t1 = b2 # t2"
    using assms(1) t0 t1 by (cases t1) auto
  obtain b3 rest where t3: "t2 = b3 # rest"
    using assms(1) t0 t1 t2 by (cases t2) auto
  have buf: "buf = b0 # b1 # b2 # b3 # rest"
    by (simp add: t0 t1 t2 t3)
  have rd: "readUInt32LE (openReader buf) = Inr (le32 b0 b1 b2 b3, \<lparr> buffer = buf, cursor = 4 \<rparr>)"
    by (simp add: buf readUInt32LE_def openReader_def)
  have "le32 b0 b1 b2 b3 \<noteq> VPK_SIGNATURE"
    using assms(2) by (simp add: buf le32_signature)
  with rd show ?thesis by (rule parse_wrong_magic)
qed

text \<open>
  Claim C2. Parsing an archive whose first uint32, the magic number, is not
  0x55AA1234 fails with InvalidSignature, for every buffer: both for what
  the reader returns as the first uint32 and, byte by byte, for every buffer
  of at least four bytes that does not start with 34 12 AA 55.
\<close>

theorem C2_wrong_magic_is_InvalidSignature:
  "(readUInt32LE (openReader buf) = Inr (m, r) \<and> m \<noteq> VPK_SIGNATURE
      \<longrightarrow> parse buf = Inl InvalidSignature)
   \<and> (4 \<le> length buf \<and> take 4 buf \<noteq> [0x34, 0x12, 0xAA, 0x55]
      \<longrightarrow> parse buf = Inl InvalidSignature)"
  using parse_wrong_magic [of buf m r] parse_wrong_bytes [of buf] by blast

text \<open>
  Witness for C2: a version 1 header whose magic has its last byte changed.
\<close>

theorem C2_wrong_magic_is_InvalidSignature_witness:
  "readUInt32LE (openReader wrongMagicArchive)
     = Inr (0x54AA1234, \<lparr> buffer = wrongMagicArchive, cursor = 4 \<rparr>)
   \<and> parse wrongMagicArchive = Inl InvalidSignature"
  using C2_wrong_magic_is_InvalidSignature
          [of wrongMagicArchive "0x54AA1234" "\<lparr> buffer = wrongMagicArchive, cursor = 4 \<rparr>"]
  by (simp add: wrongMagicArchive_def readUInt32LE_def openReader_def le32_def
        VPK_SIGNATURE_def)

end
